theory Spec2Isabelle
  imports Main "HOL-Library.Word"
begin

section \<open>JavaScript strings and byte arrays\<close>

text \<open>
  A JavaScript string is a sequence of UTF-16 code units; a \<open>Uint8Array\<close> is a sequence
  of bytes. \<open>js\<close> writes an ASCII literal as a JavaScript string.
\<close>

type_synonym byte = "8 word"
type_synonym jsstring = "16 word list"

definition js :: "string \<Rightarrow> jsstring" where
  "js s = map of_char s"

definition startsWith :: "jsstring \<Rightarrow> jsstring \<Rightarrow> bool" where
  "startsWith s pre = (take (length pre) s = pre)"

subsection \<open>Base64 (\<open>toBase64\<close> / \<open>btoa\<close>, \<open>fromBase64\<close> / \<open>atob\<close>)\<close>

definition b64_alphabet :: string where
  "b64_alphabet = ''ABCDEFGHIJKLMNOPQRSTUVWXYZabcdefghijklmnopqrstuvwxyz0123456789+/''"

definition b64_char :: "nat \<Rightarrow> 16 word" where
  "b64_char n = of_char (b64_alphabet ! n)"

text \<open>The 6-bit groups of a byte sequence, the last group filled with zero bits.\<close>

fun sextets :: "byte list \<Rightarrow> nat list" where
  "sextets [] = []"
| "sextets [a] = [unat a div 4, (unat a mod 4) * 16]"
| "sextets [a, b] =
     [unat a div 4, (unat a mod 4) * 16 + unat b div 16, (unat b mod 16) * 4]"
| "sextets (a # b # c # r) =
     [unat a div 4, (unat a mod 4) * 16 + unat b div 16,
      (unat b mod 16) * 4 + unat c div 64, unat c mod 64] @ sextets r"

definition toBase64 :: "byte list \<Rightarrow> jsstring" where
  "toBase64 bs =
     map b64_char (sextets bs) @ replicate ((3 - length bs mod 3) mod 3) (of_char CHR ''='')"

definition b64_index :: "16 word \<Rightarrow> nat option" where
  "b64_index c =
     (let u = unat c in
      if 65 \<le> u \<and> u \<le> 90 then Some (u - 65)
      else if 97 \<le> u \<and> u \<le> 122 then Some (u - 71)
      else if 48 \<le> u \<and> u \<le> 57 then Some (u + 4)
      else if u = 43 then Some 62
      else if u = 47 then Some 63
      else None)"

fun unsextets :: "nat list \<Rightarrow> byte list" where
  "unsextets (a # b # c # d # r) =
     [of_nat (a * 4 + b div 16), of_nat ((b mod 16) * 16 + c div 4),
      of_nat ((c mod 4) * 64 + d)] @ unsextets r"
| "unsextets [a, b, c] = [of_nat (a * 4 + b div 16), of_nat ((b mod 16) * 16 + c div 4)]"
| "unsextets [a, b] = [of_nat (a * 4 + b div 16)]"
| "unsextets _ = []"

definition ascii_whitespace :: "16 word \<Rightarrow> bool" where
  "ascii_whitespace c = (c = 9 \<or> c = 10 \<or> c = 12 \<or> c = 13 \<or> c = 32)"

definition strip_padding :: "jsstring \<Rightarrow> jsstring" where
  "strip_padding d =
     (if length d mod 4 = 0 \<and> d \<noteq> [] \<and> last d = of_char CHR ''='' then
        (if butlast d \<noteq> [] \<and> last (butlast d) = of_char CHR ''=''
         then butlast (butlast d) else butlast d)
      else d)"

text \<open>
  Decoding as \<open>atob\<close> does it (the forgiving decoder, which the default mode of
  \<open>Uint8Array.fromBase64\<close> follows): whitespace is dropped, up to two padding characters are
  removed from a string whose length is a multiple of four, and a length of 1 modulo 4 or a
  character outside the alphabet is an error (\<open>None\<close>: the call throws).
\<close>

definition fromBase64 :: "jsstring \<Rightarrow> byte list option" where
  "fromBase64 s =
     (let d = strip_padding (filter (\<lambda>c. \<not> ascii_whitespace c) s) in
      if length d mod 4 = 1 then None
      else map_option unsextets (those (map b64_index d)))"

text \<open>\<open>.replace(/\+/g, '-').replace(/\//g, '_')\<close> and its inverse.\<close>

definition replace_char :: "16 word \<Rightarrow> 16 word \<Rightarrow> jsstring \<Rightarrow> jsstring" where
  "replace_char a b s = map (\<lambda>c. if c = a then b else c) s"

definition to_urlsafe :: "jsstring \<Rightarrow> jsstring" where
  "to_urlsafe s =
     replace_char (of_char CHR ''/'') (of_char CHR ''_'')
       (replace_char (of_char CHR ''+'') (of_char CHR ''-'') s)"

definition from_urlsafe :: "jsstring \<Rightarrow> jsstring" where
  "from_urlsafe s =
     replace_char (of_char CHR ''_'') (of_char CHR ''/'')
       (replace_char (of_char CHR ''-'') (of_char CHR ''+'') s)"

subsection \<open>UTF-8 (\<open>TextEncoder\<close>, \<open>TextDecoder\<close>)\<close>

definition is_high_surrogate :: "16 word \<Rightarrow> bool" where
  "is_high_surrogate c = (55296 \<le> unat c \<and> unat c \<le> 56319)"

definition is_low_surrogate :: "16 word \<Rightarrow> bool" where
  "is_low_surrogate c = (56320 \<le> unat c \<and> unat c \<le> 57343)"

text \<open>
  The scalar values of a string: a surrogate pair is one code point, a surrogate without its
  partner becomes U+FFFD (65533).
\<close>

fun scalars :: "jsstring \<Rightarrow> nat list" where
  "scalars [] = []"
| "scalars [c] = (if is_high_surrogate c \<or> is_low_surrogate c then [65533] else [unat c])"
| "scalars (c # d # r) =
     (if is_high_surrogate c then
        (if is_low_surrogate d
         then (65536 + (unat c - 55296) * 1024 + (unat d - 56320)) # scalars r
         else 65533 # scalars (d # r))
      else if is_low_surrogate c then 65533 # scalars (d # r)
      else unat c # scalars (d # r))"

definition utf8_bytes :: "nat \<Rightarrow> byte list" where
  "utf8_bytes cp =
     (if cp < 128 then [of_nat cp]
      else if cp < 2048 then [of_nat (192 + cp div 64), of_nat (128 + cp mod 64)]
      else if cp < 65536 then
        [of_nat (224 + cp div 4096), of_nat (128 + (cp div 64) mod 64), of_nat (128 + cp mod 64)]
      else
        [of_nat (240 + cp div 262144), of_nat (128 + (cp div 4096) mod 64),
         of_nat (128 + (cp div 64) mod 64), of_nat (128 + cp mod 64)])"

definition TextEncoder_encode :: "jsstring \<Rightarrow> byte list" where
  "TextEncoder_encode s = concat (map utf8_bytes (scalars s))"

text \<open>
  The UTF-8 decoder of the Encoding standard, in replacement mode. The state is the code
  point collected so far, the number of continuation bytes still needed, and the bounds for
  the next continuation byte. An offending byte ends the sequence with U+FFFD and is read
  again from the initial state.
\<close>

function utf8_decode :: "nat \<Rightarrow> nat \<Rightarrow> nat \<Rightarrow> nat \<Rightarrow> byte list \<Rightarrow> nat list" where
  "utf8_decode cp needed lo hi [] = (if needed = 0 then [] else [65533])"
| "utf8_decode cp needed lo hi (b # bs) =
     (let u = unat b in
      if needed = 0 then
        (if u < 128 then u # utf8_decode 0 0 128 191 bs
         else if 194 \<le> u \<and> u \<le> 223 then utf8_decode (u mod 32) 1 128 191 bs
         else if 224 \<le> u \<and> u \<le> 239 then
           utf8_decode (u mod 16) 2 (if u = 224 then 160 else 128)
             (if u = 237 then 159 else 191) bs
         else if 240 \<le> u \<and> u \<le> 244 then
           utf8_decode (u mod 8) 3 (if u = 240 then 144 else 128)
             (if u = 244 then 143 else 191) bs
         else 65533 # utf8_decode 0 0 128 191 bs)
      else if u < lo \<or> hi < u then 65533 # utf8_decode 0 0 128 191 (b # bs)
      else if needed = 1 then (cp * 64 + u mod 64) # utf8_decode 0 0 128 191 bs
      else utf8_decode (cp * 64 + u mod 64) (needed - 1) 128 191 bs)"
  by pat_completeness auto
termination
  by (relation "measure (\<lambda>(cp, needed, lo, hi, bs). 2 * length bs + (if needed = 0 then 0 else 1))")
    auto

definition utf16_units :: "nat \<Rightarrow> jsstring" where
  "utf16_units cp =
     (if cp < 65536 then [of_nat cp]
      else [of_nat (55296 + (cp - 65536) div 1024), of_nat (56320 + (cp - 65536) mod 1024)])"

text \<open>
  \<open>new TextDecoder().decode(bytes)\<close>: the decoder is created without \<open>ignoreBOM\<close>, so a
  byte order mark U+FEFF (65279) at the start of the output is dropped.
\<close>

definition strip_bom :: "nat list \<Rightarrow> nat list" where
  "strip_bom cps = (case cps of [] \<Rightarrow> [] | c # r \<Rightarrow> if c = 65279 then r else c # r)"

definition TextDecoder_decode :: "byte list \<Rightarrow> jsstring" where
  "TextDecoder_decode bs = concat (map utf16_units (strip_bom (utf8_decode 0 0 128 191 bs)))"


subsection \<open>String helpers of the note store\<close>

text \<open>\<open>String.prototype.trim\<close> removes white space and line terminators at both ends.\<close>

definition js_whitespace :: "16 word \<Rightarrow> bool" where
  "js_whitespace c =
     (let u = unat c in
      (9 \<le> u \<and> u \<le> 13) \<or> u = 32 \<or> u = 160 \<or> u = 5760 \<or> (8192 \<le> u \<and> u \<le> 8202) \<or>
      u = 8232 \<or> u = 8233 \<or> u = 8239 \<or> u = 8287 \<or> u = 12288 \<or> u = 65279)"

definition trim :: "jsstring \<Rightarrow> jsstring" where
  "trim s = rev (dropWhile js_whitespace (rev (dropWhile js_whitespace s)))"

text \<open>The dot of a regular expression matches everything but a line terminator.\<close>

definition line_terminator :: "16 word \<Rightarrow> bool" where
  "line_terminator c = (c = 10 \<or> c = 13 \<or> c = 8232 \<or> c = 8233)"

text \<open>
  \<open>/!\[.*?\]\(data:image\/.*?;base64,.*?\)/g\<close>, matched from the left with lazy
  quantifiers. Each function returns what is left of the string behind the match.
\<close>

fun img_close :: "jsstring \<Rightarrow> jsstring option" where
  "img_close [] = None"
| "img_close (c # cs) =
     (if c = of_char CHR '')'' then Some cs
      else if line_terminator c then None
      else img_close cs)"

fun img_base64 :: "jsstring \<Rightarrow> jsstring option" where
  "img_base64 [] = None"
| "img_base64 (c # cs) =
     (case (if startsWith (c # cs) (js '';base64,'') then img_close (drop 8 (c # cs)) else None) of
        Some r \<Rightarrow> Some r
      | None \<Rightarrow> if line_terminator c then None else img_base64 cs)"

fun img_data :: "jsstring \<Rightarrow> jsstring option" where
  "img_data [] = None"
| "img_data (c # cs) =
     (case (if startsWith (c # cs) (js ''](data:image/'') then img_base64 (drop 13 (c # cs))
            else None) of
        Some r \<Rightarrow> Some r
      | None \<Rightarrow> if line_terminator c then None else img_data cs)"

definition img_match :: "jsstring \<Rightarrow> jsstring option" where
  "img_match s = (if startsWith s (js ''!['') then img_data (drop 2 s) else None)"

function strip_images :: "jsstring \<Rightarrow> jsstring" where
  "strip_images [] = []"
| "strip_images (c # cs) =
     (case img_match (c # cs) of
        Some r \<Rightarrow> strip_images r
      | None \<Rightarrow> c # strip_images cs)"
  by pat_completeness auto
termination
proof (relation "measure length")
  have close: "img_close s = Some r \<Longrightarrow> length r < length s" for s r
    by (induction s) (auto split: if_splits)
  have base64: "img_base64 s = Some r \<Longrightarrow> length r < length s" for s r
  proof (induction s)
    case (Cons c cs)
    then show ?case
      by (auto split: if_splits option.splits dest!: close)
  qed simp
  have data: "img_data s = Some r \<Longrightarrow> length r < length s" for s r
  proof (induction s)
    case (Cons c cs)
    then show ?case
      by (auto split: if_splits option.splits dest!: base64)
  qed simp
  show "wf (measure length)" by simp
  show "(r, c # cs) \<in> measure length" if "img_match (c # cs) = Some r" for c cs r
    using that data [of "drop 2 (c # cs)" r]
    by (auto simp: img_match_def split: if_splits)
  show "(cs, c # cs) \<in> measure length" for c :: "16 word" and cs
    by simp
qed

text \<open>\<open>content.match(/#(\w+)/g)\<close>: every \<open>#\<close> followed by a non-empty run of word characters.\<close>

definition word_char :: "16 word \<Rightarrow> bool" where
  "word_char c =
     (let u = unat c in
      (48 \<le> u \<and> u \<le> 57) \<or> (65 \<le> u \<and> u \<le> 90) \<or> u = 95 \<or> (97 \<le> u \<and> u \<le> 122))"

function tag_matches :: "jsstring \<Rightarrow> jsstring list" where
  "tag_matches [] = []"
| "tag_matches (c # cs) =
     (if c = of_char CHR ''#'' \<and> takeWhile word_char cs \<noteq> []
      then (c # takeWhile word_char cs) # tag_matches (dropWhile word_char cs)
      else tag_matches cs)"
  by pat_completeness auto
termination
  by (relation "measure length") (auto intro: le_imp_less_Suc length_dropWhile_le)

text \<open>\<open>[...new Set(xs)]\<close> keeps the first occurrence of every element, in order.\<close>

definition uniq :: "'a list \<Rightarrow> 'a list" where
  "uniq xs = rev (remdups (rev xs))"

section \<open>The platform\<close>

text \<open>
  What the browser provides and the repository only calls: the raw DEFLATE codec of
  \<open>CompressionStream\<close> / \<open>DecompressionStream\<close>, PBKDF2 and AES-GCM of
  \<open>crypto.subtle\<close> (a failure is \<open>None\<close>), \<open>String.prototype.toLowerCase\<close>, and
  \<open>JSON.parse\<close> of a shared payload together with the reading of its fields.
\<close>

record payload =
  c_p :: "jsstring option"
  d_p :: "jsstring option"
  t_p :: "jsstring option"
  ca_p :: "int option"
  lm_p :: "int option"
  enc_p :: "bool option"
  salt_p :: "jsstring option"
  iv_p :: "jsstring option"

record 'k platform =
  deflate_raw :: "byte list \<Rightarrow> byte list"
  inflate_raw :: "byte list \<Rightarrow> byte list option"
  pbkdf2 :: "byte list \<Rightarrow> byte list \<Rightarrow> 'k"
  aes_gcm_encrypt :: "'k \<Rightarrow> byte list \<Rightarrow> byte list \<Rightarrow> byte list option"
  aes_gcm_decrypt :: "'k \<Rightarrow> byte list \<Rightarrow> byte list \<Rightarrow> byte list option"
  toLowerCase :: "jsstring \<Rightarrow> jsstring"
  JSON_parse :: "jsstring \<Rightarrow> payload option"

section \<open>Compression codec (\<open>utils.js\<close>)\<close>

definition compress :: "'k platform \<Rightarrow> jsstring \<Rightarrow> jsstring" where
  "compress p string = to_urlsafe (toBase64 (deflate_raw p (TextEncoder_encode string)))"

definition decompress :: "'k platform \<Rightarrow> jsstring \<Rightarrow> jsstring option" where
  "decompress p b64 =
     (case fromBase64 (from_urlsafe b64) of
        None \<Rightarrow> None
      | Some byteArray \<Rightarrow>
          (case inflate_raw p byteArray of
             None \<Rightarrow> None
           | Some buffer \<Rightarrow> Some (TextDecoder_decode buffer)))"

section \<open>Encryption codec (\<open>CryptoUtils\<close>)\<close>

text \<open>An argument that the code accepts as a string, as bytes, or receives as \<open>null\<close>.\<close>

datatype bufarg = Null | Str jsstring | Bytes "byte list"

definition of_nullable :: "jsstring option \<Rightarrow> bufarg" where
  "of_nullable x = (case x of None \<Rightarrow> Null | Some s \<Rightarrow> Str s)"

record enc_result =
  encryptedData :: jsstring
  saltB64 :: jsstring
  ivB64 :: jsstring

definition deriveKey :: "'k platform \<Rightarrow> jsstring \<Rightarrow> bufarg \<Rightarrow> 'k option" where
  "deriveKey p password sl =
     (case sl of
        Str s \<Rightarrow> map_option (pbkdf2 p (TextEncoder_encode password)) (fromBase64 (from_urlsafe s))
      | Bytes saltBytes \<Rightarrow> Some (pbkdf2 p (TextEncoder_encode password) saltBytes)
      | Null \<Rightarrow> None)"

definition bufarg_b64 :: "bufarg \<Rightarrow> jsstring" where
  "bufarg_b64 x =
     (case x of Str s \<Rightarrow> s | Bytes b \<Rightarrow> to_urlsafe (toBase64 b) | Null \<Rightarrow> to_urlsafe (toBase64 []))"

definition encryptWithKey ::
  "'k platform \<Rightarrow> jsstring \<Rightarrow> 'k \<Rightarrow> bufarg \<Rightarrow> bufarg \<Rightarrow> enc_result option" where
  "encryptWithKey p text key sl nonce =
     (case (case nonce of Str s \<Rightarrow> fromBase64 (from_urlsafe s) | Bytes b \<Rightarrow> Some b | Null \<Rightarrow> None) of
        None \<Rightarrow> None
      | Some ivBytes \<Rightarrow>
          (case aes_gcm_encrypt p key ivBytes (TextEncoder_encode text) of
             None \<Rightarrow> None
           | Some encrypted \<Rightarrow>
               Some \<lparr>encryptedData = to_urlsafe (toBase64 encrypted),
                     saltB64 = bufarg_b64 sl, ivB64 = bufarg_b64 nonce\<rparr>))"

text \<open>\<open>crypto.getRandomValues\<close>: the next \<open>n\<close> bytes of the browser's random source.\<close>

record entropy =
  source :: "nat \<Rightarrow> byte"
  consumed :: nat

definition getRandomValues :: "nat \<Rightarrow> entropy \<Rightarrow> byte list \<times> entropy" where
  "getRandomValues n e =
     (map (source e) [consumed e ..< consumed e + n], e\<lparr>consumed := consumed e + n\<rparr>)"

definition encrypt ::
  "'k platform \<Rightarrow> jsstring \<Rightarrow> jsstring \<Rightarrow> entropy \<Rightarrow> enc_result option \<times> entropy" where
  "encrypt p text password e =
     (let (saltBytes, e1) = getRandomValues 16 e;
          (ivBytes, e2) = getRandomValues 12 e1
      in (case deriveKey p password (Bytes saltBytes) of
            None \<Rightarrow> None
          | Some key \<Rightarrow> encryptWithKey p text key (Bytes saltBytes) (Bytes ivBytes), e2))"

definition decryptWithKey ::
  "'k platform \<Rightarrow> jsstring \<Rightarrow> 'k \<Rightarrow> jsstring option \<Rightarrow> jsstring option" where
  "decryptWithKey p encryptedB64 key nonce =
     (case fromBase64 (from_urlsafe encryptedB64) of
        None \<Rightarrow> None
      | Some encrypted \<Rightarrow>
          (case nonce of
             None \<Rightarrow> None
           | Some ivStr \<Rightarrow>
               (case fromBase64 (from_urlsafe ivStr) of
                  None \<Rightarrow> None
                | Some ivBytes \<Rightarrow>
                    map_option TextDecoder_decode (aes_gcm_decrypt p key ivBytes encrypted))))"

definition decrypt ::
  "'k platform \<Rightarrow> jsstring \<Rightarrow> jsstring \<Rightarrow> jsstring \<Rightarrow> jsstring \<Rightarrow> jsstring option" where
  "decrypt p encryptedB64 password sl nonce =
     (case deriveKey p password (Str sl) of
        None \<Rightarrow> None
      | Some key \<Rightarrow> decryptWithKey p encryptedB64 key (Some nonce))"


section \<open>The note store (\<open>NotebookManager\<close>)\<close>

record notebook =
  note_id :: jsstring
  title :: jsstring
  content :: jsstring
  mode :: jsstring
  dir :: jsstring
  paperTheme :: jsstring
  createdAt :: int
  lastModified :: int
  encrypted :: bool
  salt :: "jsstring option"
  iv :: "jsstring option"
  pinned :: bool
  tags :: "jsstring list"
  searchableContent :: "jsstring option"

datatype modal = LockModal | UnlockModal | DeleteModal

datatype message = Warn string | Error string | Alert string

text \<open>
  The manager's fields, the parts of the page it reads and writes (the editing surface
  \<open>window.article\<close>, the password inputs, the modals, the document title, the URL fragment),
  local storage, what it prints (\<open>console.warn\<close>, \<open>console.error\<close>, \<open>alert\<close>), and what
  it reads from the browser: \<open>Date.now()\<close>, \<open>crypto.getRandomValues\<close> and the
  identifiers \<open>crypto.randomUUID()\<close> hands out.
\<close>

record 'k manager =
  notebooks :: "notebook list"
  activeId :: "jsstring option"
  mode_mgr :: jsstring
  pendingId :: "jsstring option"
  paperTheme_mgr :: jsstring
  direction :: jsstring
  sessionKeys :: "jsstring \<rightharpoonup> 'k"
  innerText :: jsstring
  contentEditable :: jsstring
  lock_input :: jsstring
  unlock_input :: jsstring
  visible :: "modal set"
  document_title :: jsstring
  location_hash :: jsstring
  stored_notebooks :: "notebook list"
  stored_activeId :: "jsstring option"
  console :: "message list"
  now :: int
  random :: entropy
  uuids :: "nat \<Rightarrow> jsstring"
  uuids_used :: nat

text \<open>\<open>this.notebooks.find(pred)\<close> returns an object of the array; a write to it changes
  the first element that satisfies the predicate.\<close>

fun update_first :: "('a \<Rightarrow> bool) \<Rightarrow> ('a \<Rightarrow> 'a) \<Rightarrow> 'a list \<Rightarrow> 'a list" where
  "update_first P f [] = []"
| "update_first P f (x # xs) = (if P x then f x # xs else x # update_first P f xs)"

definition has_id :: "jsstring \<Rightarrow> notebook \<Rightarrow> bool" where
  "has_id i n = (note_id n = i)"

definition find_note :: "jsstring option \<Rightarrow> notebook list \<Rightarrow> notebook option" where
  "find_note i ns = (case i of None \<Rightarrow> None | Some j \<Rightarrow> find (has_id j) ns)"

definition emit :: "message \<Rightarrow> 'k manager \<Rightarrow> 'k manager" where
  "emit x s = s\<lparr>console := console s @ [x]\<rparr>"

definition searchable :: "'k platform \<Rightarrow> jsstring \<Rightarrow> jsstring" where
  "searchable p text = toLowerCase p (strip_images text)"

definition locked_placeholder :: jsstring where
  "locked_placeholder = js ''This note is encrypted. Please unlock it to view its content.''"

definition saveState :: "'k manager \<Rightarrow> 'k manager" where
  "saveState s = s\<lparr>stored_notebooks := notebooks s, stored_activeId := activeId s\<rparr>"

definition addNotebook ::
  "jsstring \<Rightarrow> jsstring \<Rightarrow> jsstring \<Rightarrow> 'k manager \<Rightarrow> notebook \<times> 'k manager" where
  "addNotebook ttl cnt md s =
     (let notebook =
        \<lparr>note_id = uuids s (uuids_used s), title = ttl, content = cnt, mode = md,
         dir = js ''ltr'',
         paperTheme = (if paperTheme_mgr s = [] then js ''classic'' else paperTheme_mgr s),
         createdAt = now s, lastModified = now s, encrypted = False, salt = None, iv = None,
         pinned = False, tags = [], searchableContent = None\<rparr>
      in (notebook,
          saveState (s\<lparr>notebooks := notebooks s @ [notebook], uuids_used := uuids_used s + 1\<rparr>)))"

definition ensureActiveNote :: "'k manager \<Rightarrow> 'k manager" where
  "ensureActiveNote s =
     (let filteredNotebooks = filter (\<lambda>n. mode n = mode_mgr s) (notebooks s) in
      if filteredNotebooks = [] then
        (let (newNote, s1) = addNotebook (js ''Untitled Note'') [] (mode_mgr s) s
         in saveState (s1\<lparr>activeId := Some (note_id newNote)\<rparr>))
      else if activeId s = None \<or> activeId s = Some [] \<or>
              find (\<lambda>n. Some (note_id n) = activeId s \<and> mode n = mode_mgr s) (notebooks s) = None
      then saveState (s\<lparr>activeId := Some (note_id (last filteredNotebooks))\<rparr>)
      else saveState s)"

definition openUnlockModal :: "jsstring option \<Rightarrow> 'k manager \<Rightarrow> 'k manager" where
  "openUnlockModal i s = s\<lparr>pendingId := i, visible := insert UnlockModal (visible s)\<rparr>"

definition closeModal :: "modal \<Rightarrow> 'k manager \<Rightarrow> 'k manager" where
  "closeModal m s = s\<lparr>visible := visible s - {m}\<rparr>"

definition updateDocumentTitle :: "jsstring \<Rightarrow> 'k manager \<Rightarrow> 'k manager" where
  "updateDocumentTitle ttl s = s\<lparr>document_title := ttl @ js '' | Portfolio Notebook''\<rparr>"

text \<open>
  \<open>loadActiveNote\<close>. With \<open>save = false\<close>, \<open>applyPaperTheme\<close> and \<open>applyDirection\<close> only
  set the manager's theme and direction. A failing decompression is caught and reported.
\<close>

definition loadActiveNote :: "'k platform \<Rightarrow> 'k manager \<Rightarrow> 'k manager" where
  "loadActiveNote p s =
     (case find_note (activeId s) (notebooks s) of
        None \<Rightarrow> s
      | Some n \<Rightarrow>
          (let shown =
             (if encrypted n then
                Some (openUnlockModal (Some (note_id n))
                  (s\<lparr>innerText := locked_placeholder, contentEditable := js ''false''\<rparr>))
              else if content n \<noteq> [] then
                (case decompress p (content n) of
                   None \<Rightarrow> None
                 | Some text \<Rightarrow>
                     Some (s\<lparr>innerText := text, contentEditable := js ''plaintext-only''\<rparr>))
              else Some (s\<lparr>innerText := [], contentEditable := js ''plaintext-only''\<rparr>))
           in case shown of
                None \<Rightarrow> emit (Error ''Failed to load note'') s
              | Some s1 \<Rightarrow>
                  (updateDocumentTitle (title n) s1)
                    \<lparr>paperTheme_mgr := (if paperTheme n = [] then js ''classic'' else paperTheme n),
                     direction := (if dir n = [] then js ''ltr'' else dir n)\<rparr>))"

subsection \<open>Autosave\<close>

definition first_line :: "jsstring \<Rightarrow> jsstring" where
  "first_line text = take 30 (trim (takeWhile (\<lambda>ch. ch \<noteq> 10) text))"

definition content_tags :: "'k platform \<Rightarrow> jsstring \<Rightarrow> jsstring list" where
  "content_tags p text = map (\<lambda>tg. toLowerCase p (drop 1 tg)) (uniq (tag_matches text))"

text \<open>
  The automatic title applies while the title is one of the two placeholders and the first
  line is longer than two code units.
\<close>

definition auto_title :: "jsstring \<Rightarrow> jsstring \<Rightarrow> bool" where
  "auto_title ttl text =
     ((ttl = js ''Untitled Note'' \<or> ttl = js ''Shared Note'') \<and>
      first_line text \<noteq> [] \<and> length (first_line text) > 2)"

text \<open>What the save writes into the note once the new stored content is known.\<close>

definition save_fields :: "'k platform \<Rightarrow> jsstring \<Rightarrow> jsstring \<Rightarrow> int \<Rightarrow> notebook \<Rightarrow> notebook" where
  "save_fields p text stored time n =
     n\<lparr>content := stored,
       lastModified := time,
       tags := uniq (tags n @ content_tags p text),
       searchableContent := Some (searchable p text),
       title := (if auto_title (title n) text then first_line text else title n)\<rparr>"

text \<open>
  The body of the debounced \<open>saveAction\<close> of \<open>setupAutoSave\<close>. A failing \<open>encryptWithKey\<close>
  rejects the promise before anything is written. The document title is set whenever the
  automatic title applies, also when the first line is the placeholder itself.
\<close>

definition saveAction :: "'k platform \<Rightarrow> 'k manager \<Rightarrow> 'k manager" where
  "saveAction p s =
     (let text = innerText s in
      case find_note (activeId s) (notebooks s) of
        None \<Rightarrow> s
      | Some n \<Rightarrow>
          if contentEditable s = js ''false'' then s
          else
            (case (if encrypted n then
                     (case sessionKeys s (note_id n) of
                        Some key \<Rightarrow>
                          (case encryptWithKey p text key (of_nullable (salt n)) (of_nullable (iv n)) of
                             None \<Rightarrow> Inl s
                           | Some r \<Rightarrow> Inr (encryptedData r))
                      | None \<Rightarrow>
                          Inl (emit (Warn ''Attempted to save encrypted note without session key. Aborting save to prevent corruption.'') s))
                   else Inr (compress p text)) of
               Inl aborted \<Rightarrow> aborted
             | Inr stored \<Rightarrow>
                 (let s1 = s\<lparr>notebooks :=
                             update_first (has_id (note_id n)) (save_fields p text stored (now s))
                               (notebooks s)\<rparr>;
                      s2 = (if auto_title (title n) text
                            then updateDocumentTitle (first_line text) s1 else s1)
                  in saveState s2)))"


subsection \<open>Delete\<close>

definition confirmDelete :: "'k platform \<Rightarrow> 'k manager \<Rightarrow> 'k manager" where
  "confirmDelete p s =
     (case pendingId s of
        None \<Rightarrow> s
      | Some pid \<Rightarrow>
          if pid = [] then s
          else
            (let s1 = s\<lparr>notebooks := filter (\<lambda>n. note_id n \<noteq> pid) (notebooks s)\<rparr>;
                 s2 = (if activeId s1 = Some pid
                       then loadActiveNote p (ensureActiveNote (s1\<lparr>activeId := None\<rparr>))
                       else saveState s1)
             in (closeModal DeleteModal s2)\<lparr>pendingId := None\<rparr>))"

subsection \<open>Lock\<close>

definition closeLockModal :: "'k manager \<Rightarrow> 'k manager" where
  "closeLockModal s = (closeModal LockModal (s\<lparr>lock_input := []\<rparr>))\<lparr>pendingId := None\<rparr>"

definition lock_failed :: "'k manager \<Rightarrow> 'k manager" where
  "lock_failed s = emit (Alert ''Failed to encrypt note.'') (emit (Error ''Encryption failed'') s)"

definition confirmLock :: "'k platform \<Rightarrow> 'k manager \<Rightarrow> 'k manager" where
  "confirmLock p s =
     (let password = lock_input s in
      if password = [] then s
      else
        (case find_note (pendingId s) (notebooks s) of
           None \<Rightarrow> s
         | Some n \<Rightarrow>
             (case (if encrypted n then decompress p (content n) else Some (innerText s)) of
                None \<Rightarrow> lock_failed s
              | Some contentToEncrypt \<Rightarrow>
                  (case encrypt p contentToEncrypt password (random s) of
                     (None, e) \<Rightarrow> lock_failed (s\<lparr>random := e\<rparr>)
                   | (Some r, e) \<Rightarrow>
                       (let s1 = s\<lparr>random := e,
                                   notebooks :=
                                     update_first (has_id (note_id n))
                                       (\<lambda>m. m\<lparr>content := encryptedData r, salt := Some (saltB64 r),
                                               iv := Some (ivB64 r), encrypted := True,
                                               lastModified := now s,
                                               searchableContent := Some []\<rparr>)
                                       (notebooks s)\<rparr>
                        in case deriveKey p password (Str (saltB64 r)) of
                             None \<Rightarrow> lock_failed s1
                           | Some key \<Rightarrow>
                               (let s2 = closeLockModal (saveState
                                           (s1\<lparr>sessionKeys := (sessionKeys s1)(note_id n \<mapsto> key)\<rparr>))
                                in if activeId s2 = Some (note_id n)
                                   then s2\<lparr>innerText := locked_placeholder,
                                           contentEditable := js ''false''\<rparr>
                                   else s2))))))"

subsection \<open>Unlock\<close>

definition closeUnlockModal :: "'k manager \<Rightarrow> 'k manager" where
  "closeUnlockModal s = (closeModal UnlockModal (s\<lparr>unlock_input := []\<rparr>))\<lparr>pendingId := None\<rparr>"

definition incorrect_password :: "'k manager \<Rightarrow> 'k manager" where
  "incorrect_password s = emit (Alert ''Incorrect password!'') s"

text \<open>
  The second attempt of \<open>confirmUnlock\<close>, in the handler of the failed decryption. An
  exception inside it (\<open>Inl\<close>) is swallowed and the incorrect-password alert follows.
\<close>

definition rescue :: "'k platform \<Rightarrow> jsstring \<Rightarrow> notebook \<Rightarrow> 'k manager \<Rightarrow> 'k manager" where
  "rescue p password n s =
     (case decompress p (content n) of
        None \<Rightarrow> incorrect_password s
      | Some decompressed \<Rightarrow>
          if decompressed = [] then incorrect_password s
          else
            (let s0 = emit (Warn ''Note appears to be corrupted by auto-save bug. Rescuing content...'') s
             in case (if activeId s0 = Some (note_id n) then
                        (let s1 = s0\<lparr>innerText := decompressed,
                                     contentEditable := js ''plaintext-only''\<rparr>
                         in case encrypt p decompressed password (random s1) of
                              (None, e) \<Rightarrow> Inl (s1\<lparr>random := e\<rparr>)
                            | (Some r, e) \<Rightarrow>
                                (let s2 = saveState
                                      (s1\<lparr>random := e,
                                          notebooks :=
                                            update_first (has_id (note_id n))
                                              (\<lambda>m. m\<lparr>content := encryptedData r,
                                                      salt := Some (saltB64 r),
                                                      iv := Some (ivB64 r),
                                                      searchableContent := Some []\<rparr>)
                                              (notebooks s1)\<rparr>)
                                 in case deriveKey p password (Str (saltB64 r)) of
                                      None \<Rightarrow> Inl s2
                                    | Some newKey \<Rightarrow>
                                        Inr (s2\<lparr>sessionKeys := (sessionKeys s2)(note_id n \<mapsto> newKey)\<rparr>)))
                      else Inr s0) of
                  Inl s' \<Rightarrow> incorrect_password s'
                | Inr s' \<Rightarrow>
                    emit (Alert ''Success! Your note was recovered and re-secured. (It was affected by a minor sync bug that has now been fixed).'')
                      (closeUnlockModal s')))"

text \<open>The first attempt: the key from the stored salt, then the authenticated decryption.\<close>

definition try_decrypt :: "'k platform \<Rightarrow> jsstring \<Rightarrow> notebook \<Rightarrow> ('k \<times> jsstring) option" where
  "try_decrypt p password n =
     (case deriveKey p password (of_nullable (salt n)) of
        None \<Rightarrow> None
      | Some key \<Rightarrow> map_option (Pair key) (decryptWithKey p (content n) key (iv n)))"

definition confirmUnlock :: "'k platform \<Rightarrow> 'k manager \<Rightarrow> 'k manager" where
  "confirmUnlock p s =
     (let password = unlock_input s in
      if password = [] then s
      else
        (case find_note (pendingId s) (notebooks s) of
           None \<Rightarrow> s
         | Some n \<Rightarrow>
             (case try_decrypt p password n of
                Some (key, decrypted) \<Rightarrow>
                  (let s1 = s\<lparr>sessionKeys := (sessionKeys s)(note_id n \<mapsto> key)\<rparr>;
                       s2 = (if activeId s1 = Some (note_id n)
                             then s1\<lparr>innerText := decrypted,
                                     contentEditable := js ''plaintext-only''\<rparr>
                             else s1);
                       s3 = s2\<lparr>notebooks :=
                                 update_first (has_id (note_id n))
                                   (\<lambda>m. m\<lparr>searchableContent := Some (searchable p decrypted)\<rparr>)
                                   (notebooks s2)\<rparr>
                   in closeUnlockModal (saveState s3))
              | None \<Rightarrow> rescue p password n s)))"

subsection \<open>Search index\<close>

definition needs_index :: "notebook \<Rightarrow> bool" where
  "needs_index n =
     (\<not> encrypted n \<and> (searchableContent n = None \<or> searchableContent n = Some []) \<and>
      content n \<noteq> [])"

definition rebuild_note :: "'k platform \<Rightarrow> notebook \<Rightarrow> notebook \<times> message list" where
  "rebuild_note p n =
     (if needs_index n then
        (case decompress p (content n) of
           Some decompressed \<Rightarrow> (n\<lparr>searchableContent := Some (searchable p decompressed)\<rparr>, [])
         | None \<Rightarrow> (n, [Error ''Failed to rebuild search index for note'']))
      else (n, []))"

definition rebuildSearchIndex :: "'k platform \<Rightarrow> 'k manager \<Rightarrow> 'k manager" where
  "rebuildSearchIndex p s =
     saveState
       (s\<lparr>notebooks := map (\<lambda>n. fst (rebuild_note p n)) (notebooks s),
          console := console s @ concat (map (\<lambda>n. snd (rebuild_note p n)) (notebooks s))\<rparr>)"

subsection \<open>Import from the URL fragment\<close>

definition or_default :: "jsstring option \<Rightarrow> jsstring \<Rightarrow> jsstring" where
  "or_default x dflt = (case x of None \<Rightarrow> dflt | Some v \<Rightarrow> if v = [] then dflt else v)"

definition or_null :: "jsstring option \<Rightarrow> jsstring option" where
  "or_null x = (case x of None \<Rightarrow> None | Some v \<Rightarrow> if v = [] then None else Some v)"

definition or_now :: "int option \<Rightarrow> int \<Rightarrow> int" where
  "or_now x time = (case x of None \<Rightarrow> time | Some v \<Rightarrow> if v = 0 then time else v)"

text \<open>
  \<open>handleUrlParam\<close>. A payload that does not parse (or parses to \<open>null\<close>, where reading
  \<open>data.c\<close> throws) is taken as the text of an old link. A payload without \<open>c\<close> leaves
  \<open>content\<close> undefined, and \<open>addNotebook\<close> then uses its default, the empty string.
\<close>

definition handleUrlParam :: "'k platform \<Rightarrow> 'k manager \<Rightarrow> 'k manager" where
  "handleUrlParam p s =
     (let hash = location_hash s in
      if hash \<noteq> [] \<and> length hash > 20 then
        (case decompress p hash of
           None \<Rightarrow> emit (Error ''Failed to import from URL'') s
         | Some decompressed \<Rightarrow>
             (let data = JSON_parse p decompressed;
                  cnt = (case data of None \<Rightarrow> decompressed
                         | Some pl \<Rightarrow> (case c_p pl of None \<Rightarrow> [] | Some v \<Rightarrow> v));
                  dr = (case data of None \<Rightarrow> js ''ltr'' | Some pl \<Rightarrow> or_default (d_p pl) (js ''ltr''));
                  theme = (case data of None \<Rightarrow> js ''classic''
                           | Some pl \<Rightarrow> or_default (t_p pl) (js ''classic''));
                  created = (case data of None \<Rightarrow> now s | Some pl \<Rightarrow> or_now (ca_p pl) (now s));
                  modified = (case data of None \<Rightarrow> now s | Some pl \<Rightarrow> or_now (lm_p pl) (now s));
                  encr = (case data of None \<Rightarrow> False
                          | Some pl \<Rightarrow> (case enc_p pl of None \<Rightarrow> False | Some b \<Rightarrow> b));
                  sl = (case data of None \<Rightarrow> None | Some pl \<Rightarrow> or_null (salt_p pl));
                  nonce = (case data of None \<Rightarrow> None | Some pl \<Rightarrow> or_null (iv_p pl));
                  s1 = (case find (\<lambda>n. content n = hash) (notebooks s) of
                          Some existing \<Rightarrow> s\<lparr>activeId := Some (note_id existing)\<rparr>
                        | None \<Rightarrow>
                            (let (newNote, s') = addNotebook (js ''Shared Note'') cnt (mode_mgr s) s
                             in s'\<lparr>notebooks :=
                                     butlast (notebooks s') @
                                       [newNote\<lparr>dir := dr, paperTheme := theme, createdAt := created,
                                                lastModified := modified, encrypted := encr,
                                                salt := sl, iv := nonce\<rparr>],
                                   activeId := Some (note_id newNote)\<rparr>));
                  s2 = (saveState s1)\<lparr>location_hash := []\<rparr>
              in if encr then openUnlockModal (activeId s2) s2 else s2))
      else s)"


section \<open>A small browser to run the store in\<close>

text \<open>
  An instance of the platform for running the model on concrete inputs. Its codec puts one
  header byte in front of the data, its cipher appends the key, the nonce and the
  length of the key as the authentication tag, its key derivation joins password and salt, and its \<open>JSON.parse\<close>
  knows one shared payload. The theorems below hold for every platform; this one supplies
  the concrete runs.
\<close>

definition demo_payload :: jsstring where
  "demo_payload = js ''{\"c\":\"AWhp\",\"d\":\"rtl\"}''"

definition demo_platform :: "byte list platform" where
  "demo_platform =
     \<lparr>deflate_raw = (\<lambda>bs. 1 # bs),
      inflate_raw = (\<lambda>bs. case bs of [] \<Rightarrow> None | b # r \<Rightarrow> if b = 1 then Some r else None),
      pbkdf2 = (\<lambda>pw sl. pw @ sl),
      aes_gcm_encrypt =
        (\<lambda>k nonce pt. if nonce = [] then None else Some (pt @ k @ nonce @ [of_nat (length k)])),
      aes_gcm_decrypt =
        (\<lambda>k nonce ct.
           let tag = k @ nonce @ [of_nat (length k)] in
           if length tag \<le> length ct \<and> drop (length ct - length tag) ct = tag
           then Some (take (length ct - length tag) ct) else None),
      toLowerCase = map (\<lambda>ch. if 65 \<le> unat ch \<and> unat ch \<le> 90 then ch + 32 else ch),
      JSON_parse =
        (\<lambda>doc. if doc = demo_payload
               then Some \<lparr>c_p = Some (js ''AWhp''), d_p = Some (js ''rtl''), t_p = None,
                          ca_p = None, lm_p = None, enc_p = None, salt_p = None, iv_p = None\<rparr>
               else None)\<rparr>"

definition demo_manager :: "byte list manager" where
  "demo_manager =
     \<lparr>notebooks = [], activeId = None, mode_mgr = js ''plain'', pendingId = None,
      paperTheme_mgr = js ''classic'', direction = js ''ltr'', sessionKeys = Map.empty,
      innerText = [], contentEditable = js ''plaintext-only'', lock_input = [],
      unlock_input = [], visible = {}, document_title = [], location_hash = [],
      stored_notebooks = [], stored_activeId = None, console = [], now = 1000,
      random = \<lparr>source = (\<lambda>i. of_nat i), consumed = 0\<rparr>,
      uuids = (\<lambda>i. js ''note-'' @ [of_nat (48 + i)]), uuids_used = 0\<rparr>"

text \<open>
  The note of the scenario: written as \<open>hello #tag1 world\<close>, then locked with the password
  \<open>secret\<close>, the salt being the bytes 0 to 15 and the nonce the bytes 16 to 27.
\<close>

definition demo_locked_note :: notebook where
  "demo_locked_note =
     \<lparr>note_id = js ''note-0'', title = js ''hello #tag1 world'',
      content = js ''aGVsbG8gI3RhZzEgd29ybGRzZWNyZXQAAQIDBAUGBwgJCgsMDQ4PEBESExQVFhcYGRobFg=='',
      mode = js ''plain'', dir = js ''ltr'', paperTheme = js ''classic'', createdAt = 1000,
      lastModified = 1000, encrypted = True, salt = Some (js ''AAECAwQFBgcICQoLDA0ODw==''),
      iv = Some (js ''EBESExQVFhcYGRob''), pinned = False, tags = [js ''tag1''],
      searchableContent = Some []\<rparr>"

text \<open>A manager holding the given notes, all persisted, with \<open>note-0\<close> active.\<close>

definition demo_with :: "notebook list \<Rightarrow> byte list manager" where
  "demo_with ns =
     demo_manager\<lparr>notebooks := ns, stored_notebooks := ns, activeId := Some (js ''note-0''),
       stored_activeId := Some (js ''note-0'')\<rparr>"

text \<open>A fresh unencrypted note of the same mode.\<close>

definition demo_plain_note :: notebook where
  "demo_plain_note =
     \<lparr>note_id = js ''note-1'', title = js ''Untitled Note'', content = [],
      mode = js ''plain'', dir = js ''ltr'', paperTheme = js ''classic'', createdAt = 900,
      lastModified = 900, encrypted = False, salt = None, iv = None, pinned = False, tags = [],
      searchableContent = None\<rparr>"

text \<open>
  The known corruption: the note is marked encrypted, but its content is the compressed
  text \<open>hello #tag1 world\<close>, written by an autosave without the key.
\<close>

definition demo_corrupt_note :: notebook where
  "demo_corrupt_note = demo_locked_note\<lparr>content := js ''AWhlbGxvICN0YWcxIHdvcmxk''\<rparr>"

section \<open>Well-formed strings\<close>

text \<open>
  A string is well-formed (\<open>String.prototype.isWellFormed\<close>) when every surrogate is part
  of a pair; its scalar values are then Unicode scalar values.
\<close>

definition valid_scalar :: "nat \<Rightarrow> bool" where
  "valid_scalar cp = (cp < 1114112 \<and> \<not> (55296 \<le> cp \<and> cp \<le> 57343))"

fun well_formed :: "jsstring \<Rightarrow> bool" where
  "well_formed [] = True"
| "well_formed [c] = (\<not> is_high_surrogate c \<and> \<not> is_low_surrogate c)"
| "well_formed (c # d # r) =
     (if is_high_surrogate c then is_low_surrogate d \<and> well_formed r
      else \<not> is_low_surrogate c \<and> well_formed (d # r))"

section \<open>Vocabulary of the claims\<close>

text \<open>
  The round trip of the encryption codec as the specification writes it:
  \<open>decrypt(encrypt(s, p).ciphertextToken, p, salt, iv)\<close> with the salt and the nonce that
  \<open>encrypt\<close> returned.
\<close>

definition encrypt_then_decrypt ::
  "'k platform \<Rightarrow> jsstring \<Rightarrow> jsstring \<Rightarrow> entropy \<Rightarrow> jsstring option" where
  "encrypt_then_decrypt p s password e =
     (case fst (encrypt p s password e) of
        None \<Rightarrow> None
      | Some r \<Rightarrow> decrypt p (encryptedData r) password (saltB64 r) (ivB64 r))"

text \<open>Characters that may stand in a URL fragment as they are, as far as tokens use them.\<close>

definition url_token_char :: "16 word \<Rightarrow> bool" where
  "url_token_char ch =
     (let u = unat ch in
      (48 \<le> u \<and> u \<le> 57) \<or> (65 \<le> u \<and> u \<le> 90) \<or> (97 \<le> u \<and> u \<le> 122) \<or>
      u = 45 \<or> u = 95 \<or> u = 61)"

text \<open>The search cache of a note is clean when an encrypted note has none, or an empty one.\<close>

definition cache_clean :: "notebook \<Rightarrow> bool" where
  "cache_clean n = (encrypted n \<longrightarrow> searchableContent n = None \<or> searchableContent n = Some [])"

definition index_clean :: "notebook list \<Rightarrow> bool" where
  "index_clean ns = list_all cache_clean ns"


text \<open>The locked note after an unlock: its key is cached and the surface is editable.\<close>

definition demo_unlocked :: "byte list manager" where
  "demo_unlocked =
     (demo_with [demo_locked_note])
       \<lparr>sessionKeys := [js ''note-0'' \<mapsto> [7]], innerText := js ''a''\<rparr>"

text \<open>A note whose stored content is the content of the shared payload.\<close>

definition demo_shared_note :: notebook where
  "demo_shared_note = demo_plain_note\<lparr>note_id := js ''note-0'', content := js ''AWhp''\<rparr>"

definition demo_fragment :: jsstring where
  "demo_fragment =
     js ''AXsiYyI6IkFXaHAiLCJkIjoicnRsIn0=''"

text \<open>The note of the scenario as the autosave left it, before it was ever locked.\<close>

definition demo_saved_note :: notebook where
  "demo_saved_note =
     demo_locked_note\<lparr>content := js ''AWhlbGxvICN0YWcxIHdvcmxk'', encrypted := False, salt := None,
       iv := None, searchableContent := Some (js ''hello #tag1 world'')\<rparr>"

text \<open>The same note as an older version of the program stored it, without a search cache.\<close>

definition demo_unindexed_note :: notebook where
  "demo_unindexed_note = demo_saved_note\<lparr>note_id := js ''note-1'', searchableContent := None\<rparr>"


section \<open>Facts about the operations\<close>


lemma length_update_first [simp]: "length (update_first P f xs) = length xs"
  by (induction xs) auto

lemma find_update_first:
  "(\<And>x. P x \<Longrightarrow> P (f x)) \<Longrightarrow> find P (update_first P f xs) = map_option f (find P xs)"
  by (induction xs) auto

lemma find_note_update_first:
  assumes "find_note (Some i) ns = Some n" and "\<And>m. note_id (f m) = note_id m"
  shows "find_note (Some i) (update_first (has_id (note_id n)) f ns) = Some (f n)"
proof -
  from assms(1) have f: "find (has_id i) ns = Some n" by (simp add: find_note_def)
  then have "has_id i n" by (auto simp: find_Some_iff)
  then have "note_id n = i" by (simp add: has_id_def)
  have "find (has_id i) (update_first (has_id i) f ns) = map_option f (find (has_id i) ns)"
    by (rule find_update_first) (simp add: has_id_def assms(2))
  with f \<open>note_id n = i\<close> show ?thesis
    by (simp add: find_note_def)
qed

lemma emit_simps [simp]:
  "notebooks (emit x s) = notebooks s" "sessionKeys (emit x s) = sessionKeys s"
  "stored_notebooks (emit x s) = stored_notebooks s" "activeId (emit x s) = activeId s"
  "console (emit x s) = console s @ [x]" "innerText (emit x s) = innerText s"
  "random (emit x s) = random s"
  by (simp_all add: emit_def)

lemma saveState_simps [simp]:
  "notebooks (saveState s) = notebooks s" "sessionKeys (saveState s) = sessionKeys s"
  "stored_notebooks (saveState s) = notebooks s" "activeId (saveState s) = activeId s"
  "stored_activeId (saveState s) = activeId s" "console (saveState s) = console s"
  "mode_mgr (saveState s) = mode_mgr s" "innerText (saveState s) = innerText s"
  "random (saveState s) = random s"
  by (simp_all add: saveState_def)

lemma updateDocumentTitle_simps [simp]:
  "notebooks (updateDocumentTitle x s) = notebooks s"
  "sessionKeys (updateDocumentTitle x s) = sessionKeys s"
  "stored_notebooks (updateDocumentTitle x s) = stored_notebooks s"
  "activeId (updateDocumentTitle x s) = activeId s"
  "stored_activeId (updateDocumentTitle x s) = stored_activeId s"
  "console (updateDocumentTitle x s) = console s"
  "mode_mgr (updateDocumentTitle x s) = mode_mgr s"
  by (simp_all add: updateDocumentTitle_def)

lemma loadActiveNote_simps [simp]:
  "notebooks (loadActiveNote p s) = notebooks s"
  "activeId (loadActiveNote p s) = activeId s"
  "mode_mgr (loadActiveNote p s) = mode_mgr s"
  "stored_notebooks (loadActiveNote p s) = stored_notebooks s"
  "stored_activeId (loadActiveNote p s) = stored_activeId s"
  "sessionKeys (loadActiveNote p s) = sessionKeys s"
  by (simp_all add: loadActiveNote_def openUnlockModal_def emit_def updateDocumentTitle_def Let_def
      split: option.splits)

lemma closeModal_simps [simp]:
  "notebooks (closeModal m s) = notebooks s" "activeId (closeModal m s) = activeId s"
  "mode_mgr (closeModal m s) = mode_mgr s" "stored_notebooks (closeModal m s) = stored_notebooks s"
  "stored_activeId (closeModal m s) = stored_activeId s" "sessionKeys (closeModal m s) = sessionKeys s"
  "console (closeModal m s) = console s" "innerText (closeModal m s) = innerText s"
  by (simp_all add: closeModal_def)


text \<open>What a save that goes through leaves behind.\<close>

lemma saveAction_written:
  assumes "find_note (activeId s) (notebooks s) = Some n"
    and "contentEditable s \<noteq> js ''false''"
    and "if encrypted n
         then \<exists>key r. sessionKeys s (note_id n) = Some key \<and>
                encryptWithKey p (innerText s) key (of_nullable (salt n)) (of_nullable (iv n)) = Some r \<and>
                stored = encryptedData r
         else stored = compress p (innerText s)"
  shows "notebooks (saveAction p s) =
           update_first (has_id (note_id n)) (save_fields p (innerText s) stored (now s)) (notebooks s)"
    and "activeId (saveAction p s) = activeId s"
    and "sessionKeys (saveAction p s) = sessionKeys s"
    and "stored_notebooks (saveAction p s) = notebooks (saveAction p s)"
  using assms unfolding saveAction_def Let_def
  by (auto split: if_splits)


lemmas codec_defs = js_def b64_index_def ascii_whitespace_def strip_padding_def fromBase64_def
  replace_char_def from_urlsafe_def to_urlsafe_def toBase64_def b64_char_def b64_alphabet_def
  is_high_surrogate_def is_low_surrogate_def utf8_bytes_def TextEncoder_encode_def utf16_units_def
  strip_bom_def TextDecoder_decode_def


lemma save_fields_note_id [simp]: "note_id (save_fields p text stored time n) = note_id n"
  by (simp add: save_fields_def)

lemma saveAction_skipped:
  assumes "find_note (activeId s) (notebooks s) = Some n"
    and "\<not> (contentEditable s \<noteq> js ''false'' \<and>
            (encrypted n \<longrightarrow>
               (\<exists>key. sessionKeys s (note_id n) = Some key \<and>
                  encryptWithKey p (innerText s) key (of_nullable (salt n)) (of_nullable (iv n)) \<noteq> None)))"
  shows "notebooks (saveAction p s) = notebooks s"
  using assms unfolding saveAction_def Let_def
  by (auto split: option.splits)


lemmas demo_eval = demo_with_def demo_manager_def demo_locked_note_def demo_plain_note_def
  demo_corrupt_note_def find_note_def has_id_def

lemma demo_wrong_password:
  "try_decrypt demo_platform (js ''wrong'') demo_locked_note = None"
  by (simp add: try_decrypt_def demo_locked_note_def deriveKey_def decryptWithKey_def
      of_nullable_def demo_platform_def codec_defs)

lemma demo_empty_password:
  "try_decrypt demo_platform [] demo_locked_note = None"
  by (simp add: try_decrypt_def demo_locked_note_def deriveKey_def decryptWithKey_def
      of_nullable_def demo_platform_def codec_defs)

lemma demo_locked_not_compressed:
  "decompress demo_platform (content demo_locked_note) = None"
  by (simp add: decompress_def demo_locked_note_def demo_platform_def codec_defs)

subsection \<open>Base64 decodes what it encodes\<close>

text \<open>A bound that is a numeral is checked index by index.\<close>

lemma upt_numeral_last: "[0..<numeral k] = [0..<pred_numeral k] @ [pred_numeral k]"
  by (simp add: numeral_eq_Suc)

lemma b64_char_props:
  assumes "n < 64"
  shows "b64_index (b64_char n) = Some n \<and> b64_char n \<noteq> 61 \<and> b64_char n \<noteq> 45 \<and>
         b64_char n \<noteq> 95 \<and> \<not> ascii_whitespace (b64_char n)"
proof -
  have "list_all (\<lambda>n. b64_index (b64_char n) = Some n \<and> b64_char n \<noteq> 61 \<and> b64_char n \<noteq> 45 \<and>
         b64_char n \<noteq> 95 \<and> \<not> ascii_whitespace (b64_char n)) [0..<64]"
    by (simp add: upt_numeral_last b64_char_def b64_alphabet_def b64_index_def ascii_whitespace_def)
  with assms show ?thesis by (simp add: list_all_iff)
qed

lemma unat_byte: "unat (a :: byte) < 256"
  using unsigned_less [of a, where 'a = nat] by simp

lemma sextets_bound: "x \<in> set (sextets bs) \<Longrightarrow> x < 64"
proof (induction bs arbitrary: x rule: sextets.induct)
  case 1
  then show ?case by simp
next
  case (2 a)
  with unat_byte [of a] show ?case by auto
next
  case (3 a b)
  with unat_byte [of a] unat_byte [of b] show ?case by auto
next
  case (4 a b c r)
  with unat_byte [of a] unat_byte [of b] unat_byte [of c] show ?case by auto
qed

lemma regroup:
  fixes a b c :: nat
  assumes "b < 256" "c < 256"
  shows "a div 4 * 4 + (a mod 4 * 16 + b div 16) div 16 = a"
    and "(a mod 4 * 16 + b div 16) mod 16 * 16 + (b mod 16 * 4 + c div 64) div 4 = b"
    and "(b mod 16 * 4 + c div 64) mod 4 * 64 + c mod 64 = c"
    and "(a mod 4 * 16 + b div 16) mod 16 * 16 + (b mod 16 * 4) div 4 = b"
    and "a div 4 * 4 + (a mod 4 * 16) div 16 = a"
proof -
  from assms have b: "b div 16 < 16" and c: "c div 64 < 4" by simp_all
  show "a div 4 * 4 + (a mod 4 * 16 + b div 16) div 16 = a"
    using b by simp
  show "(a mod 4 * 16 + b div 16) mod 16 * 16 + (b mod 16 * 4 + c div 64) div 4 = b"
    using b c by simp
  show "(b mod 16 * 4 + c div 64) mod 4 * 64 + c mod 64 = c"
    using c by simp
  show "(a mod 4 * 16 + b div 16) mod 16 * 16 + (b mod 16 * 4) div 4 = b"
    using b by simp
  show "a div 4 * 4 + (a mod 4 * 16) div 16 = a"
    by simp
qed

lemma unsextets_sextets: "unsextets (sextets bs) = bs"
proof (induction bs rule: sextets.induct)
  case 1
  then show ?case by simp
next
  case (2 a)
  show ?case by (simp add: regroup(5))
next
  case (3 a b)
  from unat_byte [of b] show ?case by (simp add: regroup(1,4))
next
  case (4 a b c r)
  with unat_byte [of b] unat_byte [of c] show ?case by (simp add: regroup)
qed

lemma length_sextets: "length (sextets bs) = (length bs * 4 + 2) div 3"
  by (induction bs rule: sextets.induct) simp_all

lemma those_map_b64_index:
  "(\<And>x. x \<in> set xs \<Longrightarrow> x < 64) \<Longrightarrow> those (map b64_index (map b64_char xs)) = Some xs"
  by (induction xs) (simp_all add: b64_char_props)

lemma toBase64_chars:
  assumes "ch \<in> set (toBase64 bs)"
  shows "ch \<noteq> 45 \<and> ch \<noteq> 95 \<and> \<not> ascii_whitespace ch"
proof -
  from assms consider x where "x \<in> set (sextets bs)" "ch = b64_char x" | "ch = 61"
    by (auto simp: toBase64_def)
  then show ?thesis
  proof cases
    case 1
    then show ?thesis using b64_char_props [of x] sextets_bound [of x bs] by simp
  next
    case 2
    then show ?thesis by (simp add: ascii_whitespace_def)
  qed
qed

lemma strip_padding_toBase64:
  "strip_padding (toBase64 bs) = map b64_char (sextets bs)"
proof -
  let ?body = "map b64_char (sextets bs)"
  have last_body: "last ?body \<noteq> 61" if "sextets bs \<noteq> []"
  proof -
    from that have "last (sextets bs) \<in> set (sextets bs)" by simp
    then have "last (sextets bs) < 64" by (rule sextets_bound)
    with that show ?thesis by (simp add: last_map b64_char_props)
  qed
  consider "length bs mod 3 = 0" | "length bs mod 3 = 1" | "length bs mod 3 = 2"
    by fastforce
  then show ?thesis
  proof cases
    case 1
    then have "toBase64 bs = ?body" by (simp add: toBase64_def)
    then show ?thesis using last_body by (auto simp: strip_padding_def)
  next
    case 2
    then have t: "toBase64 bs = ?body @ [61, 61]" by (simp add: toBase64_def numeral_2_eq_2)
    have "(length (sextets bs) + 2) mod 4 = 0"
      using 2 unfolding length_sextets by presburger
    then show ?thesis unfolding t by (simp add: strip_padding_def butlast_append)
  next
    case 3
    then have t: "toBase64 bs = ?body @ [61]" by (simp add: toBase64_def)
    have "length (sextets bs) \<noteq> 0" using 3 unfolding length_sextets by presburger
    then have ne: "sextets bs \<noteq> []" by simp
    have "(length (sextets bs) + 1) mod 4 = 0"
      using 3 unfolding length_sextets by presburger
    then show ?thesis unfolding t using last_body [OF ne] ne
      by (simp add: strip_padding_def butlast_append)
  qed
qed

text \<open>Decoding gives back the encoded bytes.\<close>

lemma fromBase64_toBase64: "fromBase64 (toBase64 bs) = Some bs"
proof -
  have f: "filter (\<lambda>ch. \<not> ascii_whitespace ch) (toBase64 bs) = toBase64 bs"
    by (rule filter_True) (simp add: toBase64_chars)
  have "length (sextets bs) mod 4 \<noteq> 1"
    unfolding length_sextets by presburger
  moreover have "those (map b64_index (map b64_char (sextets bs))) = Some (sextets bs)"
    by (rule those_map_b64_index) (rule sextets_bound)
  ultimately show ?thesis
    by (simp add: fromBase64_def f strip_padding_toBase64 unsextets_sextets del: map_map)
qed

lemma from_urlsafe_to_urlsafe:
  "(\<And>ch. ch \<in> set s \<Longrightarrow> ch \<noteq> 45 \<and> ch \<noteq> 95) \<Longrightarrow> from_urlsafe (to_urlsafe s) = s"
  by (induction s) (auto simp: from_urlsafe_def to_urlsafe_def replace_char_def)

text \<open>The same through the URL-safe alphabet, as every token of the store is written.\<close>

lemma b64url_roundtrip: "fromBase64 (from_urlsafe (to_urlsafe (toBase64 bs))) = Some bs"
  by (simp add: from_urlsafe_to_urlsafe toBase64_chars fromBase64_toBase64)

subsection \<open>UTF-8 decodes what it encodes\<close>

lemma unat_of_nat_byte: "x < 256 \<Longrightarrow> unat (of_nat x :: byte) = x"
  by (simp add: unsigned_of_nat take_bit_nat_eq_self)

lemma mod_offset: "x < m \<Longrightarrow> (k * m + x) mod m = (x::nat)"
  by simp

lemma lead_bits:
  fixes q :: nat
  shows "q < 32 \<Longrightarrow> (192 + q) mod 32 = q"
    and "q < 16 \<Longrightarrow> (224 + q) mod 16 = q"
    and "q < 8 \<Longrightarrow> (240 + q) mod 8 = q"
    and "q < 64 \<Longrightarrow> (128 + q) mod 64 = q"
  using mod_offset [of q 32 6] mod_offset [of q 16 14] mod_offset [of q 8 30] mod_offset [of q 64 2]
  by simp_all

text \<open>One decoding step on a lead byte, and one on a continuation byte.\<close>

lemma lead2:
  assumes "unat b = 192 + q" "2 \<le> q" "q < 32"
  shows "utf8_decode 0 0 128 191 (b # bs) = utf8_decode q 1 128 191 bs"
  using assms by (simp add: Let_def lead_bits)

lemma lead3:
  assumes "unat b = 224 + q" "q < 16"
  shows "utf8_decode 0 0 128 191 (b # bs) =
         utf8_decode q 2 (if q = 0 then 160 else 128) (if q = 13 then 159 else 191) bs"
  using assms by (simp add: Let_def lead_bits)

lemma lead4:
  assumes "unat b = 240 + q" "q < 5"
  shows "utf8_decode 0 0 128 191 (b # bs) =
         utf8_decode q 3 (if q = 0 then 144 else 128) (if q = 4 then 143 else 191) bs"
  using assms by (simp add: Let_def lead_bits)

lemma cont_last:
  assumes "unat b = 128 + r" "r < 64" "lo \<le> 128 + r" "128 + r \<le> hi"
  shows "utf8_decode acc 1 lo hi (b # bs) = (acc * 64 + r) # utf8_decode 0 0 128 191 bs"
  using assms by (simp add: Let_def lead_bits)

lemma cont_more:
  assumes "unat b = 128 + r" "r < 64" "lo \<le> 128 + r" "128 + r \<le> hi" "1 < needed"
  shows "utf8_decode acc needed lo hi (b # bs) = utf8_decode (acc * 64 + r) (needed - 1) 128 191 bs"
  using assms by (simp add: Let_def lead_bits)


lemma byte_of_sum: "k + x < 256 \<Longrightarrow> unat (of_nat (k + x) :: byte) = k + x"
  by (rule unat_of_nat_byte)

lemma decode_one_byte:
  assumes "cp < 128"
  shows "utf8_decode 0 0 128 191 (utf8_bytes cp @ rest) = cp # utf8_decode 0 0 128 191 rest"
  using assms by (simp add: utf8_bytes_def unat_of_nat_byte)

lemma decode_two_bytes:
  assumes "128 \<le> cp" "cp < 2048"
  shows "utf8_decode 0 0 128 191 (utf8_bytes cp @ rest) = cp # utf8_decode 0 0 128 191 rest"
proof -
  define q r where "q = cp div 64" and "r = cp mod 64"
  have cp: "q * 64 + r = cp" by (simp add: q_def r_def)
  have r: "r < 64" by (simp add: r_def)
  have q: "2 \<le> q" "q < 32"
    using assms cp r by linarith+
  have b: "utf8_bytes cp = [of_nat (192 + q), of_nat (128 + r)]"
    using assms by (simp add: utf8_bytes_def q_def r_def del: of_nat_add)
  have u: "unat (of_nat (192 + q) :: byte) = 192 + q" "unat (of_nat (128 + r) :: byte) = 128 + r"
    using q r by (simp_all add: unat_of_nat_byte del: of_nat_add)
  have "utf8_decode 0 0 128 191 (utf8_bytes cp @ rest) =
        utf8_decode q 1 128 191 (of_nat (128 + r) # rest)"
    unfolding b using lead2 [OF u(1) q] by (simp del: of_nat_add utf8_decode.simps)
  also have "\<dots> = (q * 64 + r) # utf8_decode 0 0 128 191 rest"
    using r by (intro cont_last [OF u(2)]) simp_all
  finally show ?thesis by (simp only: cp)
qed

lemma decode_three_bytes:
  assumes "2048 \<le> cp" "cp < 65536" "\<not> (55296 \<le> cp \<and> cp \<le> 57343)"
  shows "utf8_decode 0 0 128 191 (utf8_bytes cp @ rest) = cp # utf8_decode 0 0 128 191 rest"
proof -
  define a m r where "a = cp div 4096" and "m = cp div 64 mod 64" and "r = cp mod 64"
  have m: "m < 64" and r: "r < 64" by (simp_all add: m_def r_def)
  have e: "cp div 64 = a * 64 + m"
    using div_mult2_eq [of cp 64 64] by (simp add: a_def m_def)
  have "(a * 64 + m) * 64 + r = cp div 64 * 64 + cp mod 64"
    by (simp only: e r_def)
  then have cp: "(a * 64 + m) * 64 + r = cp"
    by (simp only: div_mult_mod_eq)
  have cpl: "4096 * a + 64 * m + r = cp" using cp by simp
  have a: "a < 16" using assms cpl m r by linarith
  have lo: "a = 0 \<Longrightarrow> 32 \<le> m" using assms cpl m r by linarith
  have hi: "a = 13 \<Longrightarrow> m < 32" using assms cpl m r by linarith
  have b: "utf8_bytes cp = [of_nat (224 + a), of_nat (128 + m), of_nat (128 + r)]"
    using assms by (simp add: utf8_bytes_def a_def m_def r_def del: of_nat_add)
  have u: "unat (of_nat (224 + a) :: byte) = 224 + a" "unat (of_nat (128 + m) :: byte) = 128 + m"
    "unat (of_nat (128 + r) :: byte) = 128 + r"
    using a m r by (simp_all add: unat_of_nat_byte del: of_nat_add)
  have "utf8_decode 0 0 128 191 (utf8_bytes cp @ rest) =
        utf8_decode a 2 (if a = 0 then 160 else 128) (if a = 13 then 159 else 191)
          (of_nat (128 + m) # of_nat (128 + r) # rest)"
    unfolding b using lead3 [OF u(1) a] by (simp del: of_nat_add utf8_decode.simps)
  also have "\<dots> = utf8_decode (a * 64 + m) (2 - 1) 128 191 (of_nat (128 + r) # rest)"
    using m lo hi by (intro cont_more [OF u(2)]) auto
  also have "\<dots> = ((a * 64 + m) * 64 + r) # utf8_decode 0 0 128 191 rest"
    using r cont_last [OF u(3), of 128 191 "a * 64 + m" rest] by simp
  finally show ?thesis by (simp only: cp)
qed

lemma decode_four_bytes:
  assumes "65536 \<le> cp" "cp < 1114112"
  shows "utf8_decode 0 0 128 191 (utf8_bytes cp @ rest) = cp # utf8_decode 0 0 128 191 rest"
proof -
  define a h m r where "a = cp div 262144" and "h = cp div 4096 mod 64"
    and "m = cp div 64 mod 64" and "r = cp mod 64"
  have h: "h < 64" and m: "m < 64" and r: "r < 64" by (simp_all add: h_def m_def r_def)
  have e1: "cp div 64 = cp div 4096 * 64 + m"
    using div_mult2_eq [of cp 64 64] by (simp add: m_def)
  have e2: "cp div 4096 = a * 64 + h"
    using div_mult2_eq [of cp 4096 64] by (simp add: a_def h_def)
  have "((a * 64 + h) * 64 + m) * 64 + r = cp div 64 * 64 + cp mod 64"
    by (simp only: e1 e2 r_def)
  then have cp: "((a * 64 + h) * 64 + m) * 64 + r = cp"
    by (simp only: div_mult_mod_eq)
  have cpl: "262144 * a + 4096 * h + 64 * m + r = cp" using cp by simp
  have a: "a < 5" using assms cpl h m r by linarith
  have lo: "a = 0 \<Longrightarrow> 16 \<le> h" using assms cpl h m r by linarith
  have hi: "a = 4 \<Longrightarrow> h < 16" using assms cpl h m r by linarith
  have b: "utf8_bytes cp =
      [of_nat (240 + a), of_nat (128 + h), of_nat (128 + m), of_nat (128 + r)]"
    using assms by (simp add: utf8_bytes_def a_def h_def m_def r_def del: of_nat_add)
  have u: "unat (of_nat (240 + a) :: byte) = 240 + a" "unat (of_nat (128 + h) :: byte) = 128 + h"
    "unat (of_nat (128 + m) :: byte) = 128 + m" "unat (of_nat (128 + r) :: byte) = 128 + r"
    using a h m r by (simp_all add: unat_of_nat_byte del: of_nat_add)
  have "utf8_decode 0 0 128 191 (utf8_bytes cp @ rest) =
        utf8_decode a 3 (if a = 0 then 144 else 128) (if a = 4 then 143 else 191)
          (of_nat (128 + h) # of_nat (128 + m) # of_nat (128 + r) # rest)"
    unfolding b using lead4 [OF u(1) a] by (simp del: of_nat_add utf8_decode.simps)
  also have "\<dots> = utf8_decode (a * 64 + h) (3 - 1) 128 191
      (of_nat (128 + m) # of_nat (128 + r) # rest)"
    using h lo hi by (intro cont_more [OF u(2)]) auto
  also have "\<dots> = utf8_decode ((a * 64 + h) * 64 + m) (2 - 1) 128 191 (of_nat (128 + r) # rest)"
    using m cont_more [OF u(3), of 128 191 2 "a * 64 + h" "of_nat (128 + r) # rest"] by simp
  also have "\<dots> = (((a * 64 + h) * 64 + m) * 64 + r) # utf8_decode 0 0 128 191 rest"
    using r cont_last [OF u(4), of 128 191 "(a * 64 + h) * 64 + m" rest] by simp
  finally show ?thesis by (simp only: cp)
qed

lemma decode_scalar:
  "valid_scalar cp \<Longrightarrow>
     utf8_decode 0 0 128 191 (utf8_bytes cp @ rest) = cp # utf8_decode 0 0 128 191 rest"
  using decode_one_byte [of cp rest] decode_two_bytes [of cp rest]
    decode_three_bytes [of cp rest] decode_four_bytes [of cp rest]
  unfolding valid_scalar_def by linarith

lemma decode_scalars:
  "(\<And>cp. cp \<in> set cps \<Longrightarrow> valid_scalar cp) \<Longrightarrow>
     utf8_decode 0 0 128 191 (concat (map utf8_bytes cps)) = cps"
  by (induction cps) (simp_all add: decode_scalar del: utf8_decode.simps(2))


lemma unat_unit: "unat (c :: 16 word) < 65536"
  using unsigned_less [of c, where 'a = nat] by simp

lemma pair_scalar:
  fixes x y :: nat
  assumes "55296 \<le> x" "x \<le> 56319" "56320 \<le> y" "y \<le> 57343"
  shows "65536 \<le> 65536 + (x - 55296) * 1024 + (y - 56320)"
    and "65536 + (x - 55296) * 1024 + (y - 56320) < 1114112"
    and "(65536 + (x - 55296) * 1024 + (y - 56320) - 65536) div 1024 = x - 55296"
    and "(65536 + (x - 55296) * 1024 + (y - 56320) - 65536) mod 1024 = y - 56320"
proof -
  from assms have y: "y - 56320 < 1024" by linarith
  from assms have x: "x - 55296 < 1024" by linarith
  show "65536 \<le> 65536 + (x - 55296) * 1024 + (y - 56320)" by simp
  show "65536 + (x - 55296) * 1024 + (y - 56320) < 1114112" using x y by linarith
  show "(65536 + (x - 55296) * 1024 + (y - 56320) - 65536) div 1024 = x - 55296"
    using y by simp
  show "(65536 + (x - 55296) * 1024 + (y - 56320) - 65536) mod 1024 = y - 56320"
    using y by simp
qed

lemma scalars_valid: "well_formed s \<Longrightarrow> cp \<in> set (scalars s) \<Longrightarrow> valid_scalar cp"
proof (induction s arbitrary: cp rule: scalars.induct)
  case 1
  then show ?case by simp
next
  case (2 c)
  then show ?case
    using unat_unit [of c]
    by (auto simp: valid_scalar_def is_high_surrogate_def is_low_surrogate_def)
next
  case (3 c d r)
  show ?case
  proof (cases "is_high_surrogate c")
    case True
    with "3.prems" have d: "is_low_surrogate d" and wf: "well_formed r" by simp_all
    from "3.prems" True d consider
      "cp = 65536 + (unat c - 55296) * 1024 + (unat d - 56320)" | "cp \<in> set (scalars r)"
      by auto
    then show ?thesis
    proof cases
      case 1
      with pair_scalar(1,2) [of "unat c" "unat d"] True d show ?thesis
        by (simp add: valid_scalar_def is_high_surrogate_def is_low_surrogate_def)
    next
      case 2
      with "3.IH"(1) True d wf show ?thesis by simp
    qed
  next
    case False
    with "3.prems" have c: "\<not> is_low_surrogate c" and wf: "well_formed (d # r)" by simp_all
    from "3.prems" False c consider "cp = unat c" | "cp \<in> set (scalars (d # r))"
      by auto
    then show ?thesis
    proof cases
      case 1
      with False c unat_unit [of c] show ?thesis
        by (auto simp: valid_scalar_def is_high_surrogate_def is_low_surrogate_def)
    next
      case 2
      with "3.IH"(4) False c wf show ?thesis by simp
    qed
  qed
qed

lemma utf16_of_unit:
  "\<not> is_high_surrogate c \<Longrightarrow> \<not> is_low_surrogate c \<Longrightarrow> utf16_units (unat c) = [c]"
  using unat_unit [of c] by (simp add: utf16_units_def)

lemma utf16_of_pair:
  assumes "is_high_surrogate c" "is_low_surrogate d"
  shows "utf16_units (65536 + (unat c - 55296) * 1024 + (unat d - 56320)) = [c, d]"
proof -
  from assms have b: "55296 \<le> unat c" "unat c \<le> 56319" "56320 \<le> unat d" "unat d \<le> 57343"
    by (simp_all add: is_high_surrogate_def is_low_surrogate_def)
  have "55296 + (unat c - 55296) = unat c" "56320 + (unat d - 56320) = unat d"
    using b by simp_all
  then show ?thesis
    using pair_scalar [OF b] by (simp add: utf16_units_def del: of_nat_add)
qed

lemma utf16_scalars: "well_formed s \<Longrightarrow> concat (map utf16_units (scalars s)) = s"
proof (induction s rule: scalars.induct)
  case 1
  then show ?case by simp
next
  case (2 c)
  then show ?case by (simp add: utf16_of_unit)
next
  case (3 c d r)
  then show ?case by (auto simp: utf16_of_unit utf16_of_pair)
qed

text \<open>
  Encoding and decoding a well-formed string gives the string back, without a byte order
  mark it may begin with.
\<close>

lemma TextDecoder_TextEncoder:
  assumes "well_formed s"
  shows "TextDecoder_decode (TextEncoder_encode s) =
         (case s of [] \<Rightarrow> [] | c # r \<Rightarrow> if c = 65279 then r else s)"
proof -
  have dec: "utf8_decode 0 0 128 191 (TextEncoder_encode s) = scalars s"
    unfolding TextEncoder_encode_def using assms by (intro decode_scalars) (rule scalars_valid)
  show ?thesis
  proof (cases s)
    case Nil
    then show ?thesis by (simp add: TextDecoder_decode_def TextEncoder_encode_def strip_bom_def)
  next
    case (Cons c r)
    show ?thesis
    proof (cases "c = 65279")
      case True
      then have ns: "\<not> is_high_surrogate c" "\<not> is_low_surrogate c"
        by (simp_all add: is_high_surrogate_def is_low_surrogate_def)
      with assms Cons have wf: "well_formed r" by (cases r) simp_all
      from ns True have "scalars (c # r) = 65279 # scalars r" by (cases r) simp_all
      with Cons True wf show ?thesis
        unfolding TextDecoder_decode_def dec by (simp add: strip_bom_def utf16_scalars)
    next
      case False
      have "hd (scalars (c # r)) \<noteq> 65279 \<and> scalars (c # r) \<noteq> []"
      proof (cases "is_high_surrogate c")
        case True
        with assms Cons obtain d r' where r: "r = d # r'" and d: "is_low_surrogate d"
          by (cases r) auto
        with True show ?thesis by simp
      next
        case h: False
        with assms Cons have l: "\<not> is_low_surrogate c" by (cases r) simp_all
        have "unat c \<noteq> 65279"
        proof
          assume "unat c = 65279"
          moreover have "of_nat (unat c) = c" by simp
          ultimately show False using False by simp
        qed
        with h l show ?thesis by (cases r) simp_all
      qed
      then have "strip_bom (scalars s) = scalars s"
        unfolding Cons by (cases "scalars (c # r)") (simp_all add: strip_bom_def)
      with Cons False assms show ?thesis
        unfolding TextDecoder_decode_def dec by (simp add: utf16_scalars)
    qed
  qed
qed

subsection \<open>The codecs\<close>

lemma decompress_compress:
  assumes "\<And>bs. inflate_raw p (deflate_raw p bs) = Some bs" and "well_formed s"
  shows "decompress p (compress p s) = Some (case s of [] \<Rightarrow> [] | c # r \<Rightarrow> if c = 65279 then r else s)"
  using assms by (simp add: decompress_def compress_def b64url_roundtrip TextDecoder_TextEncoder)

lemma b64_char_url_safe:
  assumes "n < 64"
  shows "url_token_char (if b64_char n = 43 then 45 else if b64_char n = 47 then 95 else b64_char n)"
proof -
  have "list_all
      (\<lambda>n. url_token_char (if b64_char n = 43 then 45 else if b64_char n = 47 then 95 else b64_char n))
      [0..<64]"
    by (simp add: upt_numeral_last b64_char_def b64_alphabet_def url_token_char_def)
  with assms show ?thesis by (simp add: list_all_iff)
qed

lemma to_urlsafe_chars:
  assumes "ch \<in> set (to_urlsafe (toBase64 bs))"
  shows "url_token_char ch"
proof -
  from assms obtain x where x: "x \<in> set (toBase64 bs)"
    and ch: "ch = (if x = 43 then 45 else if x = 47 then 95 else x)"
    by (auto simp: to_urlsafe_def replace_char_def split: if_splits)
  from x consider n where "n \<in> set (sextets bs)" "x = b64_char n" | "x = 61"
    by (auto simp: toBase64_def)
  then show ?thesis
  proof cases
    case 1
    with b64_char_url_safe [of n] sextets_bound [of n bs] ch show ?thesis
      by (auto simp: url_token_char_def split: if_splits)
  next
    case 2
    with ch show ?thesis by (simp add: url_token_char_def)
  qed
qed

lemma compress_url_safe: "ch \<in> set (compress p s) \<Longrightarrow> url_token_char ch"
  unfolding compress_def by (rule to_urlsafe_chars)

lemma demo_codec: "inflate_raw demo_platform (deflate_raw demo_platform bs) = Some bs"
  by (simp add: demo_platform_def)


lemma length_getRandomValues [simp]: "length (fst (getRandomValues n e)) = n"
  by (simp add: getRandomValues_def)

text \<open>
  On a platform whose cipher accepts every 12-byte nonce and decrypts what it encrypted,
  encrypting and then decrypting is the UTF-8 encoding followed by \<open>TextDecoder\<close>.
\<close>

lemma encrypt_then_decrypt_text:
  assumes total: "\<And>k nonce pt. length nonce = 12 \<Longrightarrow> aes_gcm_encrypt p k nonce pt \<noteq> None"
    and aead: "\<And>k nonce pt ct. aes_gcm_encrypt p k nonce pt = Some ct \<Longrightarrow>
                 aes_gcm_decrypt p k nonce ct = Some pt"
  shows "encrypt_then_decrypt p s password e = Some (TextDecoder_decode (TextEncoder_encode s))"
proof -
  define saltBytes where "saltBytes = fst (getRandomValues 16 e)"
  define ivBytes where "ivBytes = fst (getRandomValues 12 (snd (getRandomValues 16 e)))"
  define key where "key = pbkdf2 p (TextEncoder_encode password) saltBytes"
  have "length ivBytes = 12" by (simp add: ivBytes_def)
  from total [OF this] obtain ct where
    ct: "aes_gcm_encrypt p key ivBytes (TextEncoder_encode s) = Some ct"
    by blast
  have enc: "fst (encrypt p s password e) =
      Some \<lparr>encryptedData = to_urlsafe (toBase64 ct), saltB64 = to_urlsafe (toBase64 saltBytes),
            ivB64 = to_urlsafe (toBase64 ivBytes)\<rparr>"
    using ct
    by (simp add: encrypt_def Let_def split_beta deriveKey_def encryptWithKey_def bufarg_b64_def
        saltBytes_def ivBytes_def key_def)
  have "decrypt p (to_urlsafe (toBase64 ct)) password (to_urlsafe (toBase64 saltBytes))
          (to_urlsafe (toBase64 ivBytes)) = Some (TextDecoder_decode (TextEncoder_encode s))"
    using aead [OF ct]
    by (simp add: decrypt_def deriveKey_def decryptWithKey_def b64url_roundtrip key_def)
  with enc show ?thesis by (simp add: encrypt_then_decrypt_def)
qed

lemma demo_cipher_total: "length nonce = 12 \<Longrightarrow> aes_gcm_encrypt demo_platform k nonce pt \<noteq> None"
  by (auto simp: demo_platform_def)

lemma demo_cipher_correct:
  "aes_gcm_encrypt demo_platform k nonce pt = Some ct \<Longrightarrow> aes_gcm_decrypt demo_platform k nonce ct = Some pt"
  by (auto simp: demo_platform_def Let_def split: if_splits)

subsection \<open>Unlock, lock and the search cache\<close>

lemma closeUnlockModal_simps [simp]:
  "notebooks (closeUnlockModal s) = notebooks s" "activeId (closeUnlockModal s) = activeId s"
  "stored_notebooks (closeUnlockModal s) = stored_notebooks s"
  "sessionKeys (closeUnlockModal s) = sessionKeys s" "console (closeUnlockModal s) = console s"
  "innerText (closeUnlockModal s) = innerText s"
  "contentEditable (closeUnlockModal s) = contentEditable s"
  "pendingId (closeUnlockModal s) = None" "visible (closeUnlockModal s) = visible s - {UnlockModal}"
  "unlock_input (closeUnlockModal s) = []"
  by (simp_all add: closeUnlockModal_def closeModal_def)

lemma emit_more_simps [simp]:
  "contentEditable (emit x s) = contentEditable s" "pendingId (emit x s) = pendingId s"
  "visible (emit x s) = visible s" "unlock_input (emit x s) = unlock_input s"
  by (simp_all add: emit_def)

text \<open>The recovery on the active note, written out.\<close>

lemma rescue_active:
  assumes act: "activeId s = Some (note_id n)"
    and dec: "decompress p (content n) = Some recovered"
    and nonempty: "recovered \<noteq> []"
    and enc: "aes_gcm_encrypt p (pbkdf2 p (TextEncoder_encode password) (fst (getRandomValues 16 (random s))))
                (fst (getRandomValues 12 (snd (getRandomValues 16 (random s)))))
                (TextEncoder_encode recovered) = Some ct"
  shows "rescue p password n s =
     emit (Alert ''Success! Your note was recovered and re-secured. (It was affected by a minor sync bug that has now been fixed).'')
       (closeUnlockModal
         ((saveState
           ((emit (Warn ''Note appears to be corrupted by auto-save bug. Rescuing content...'') s)
              \<lparr>innerText := recovered, contentEditable := js ''plaintext-only'',
               random := snd (getRandomValues 12 (snd (getRandomValues 16 (random s)))),
               notebooks :=
                 update_first (has_id (note_id n))
                   (\<lambda>m. m\<lparr>content := to_urlsafe (toBase64 ct),
                           salt := Some (to_urlsafe (toBase64 (fst (getRandomValues 16 (random s))))),
                           iv := Some (to_urlsafe (toBase64
                                  (fst (getRandomValues 12 (snd (getRandomValues 16 (random s))))))),
                           searchableContent := Some []\<rparr>)
                   (notebooks s)\<rparr>))
          \<lparr>sessionKeys := (sessionKeys s)(note_id n \<mapsto>
              pbkdf2 p (TextEncoder_encode password) (fst (getRandomValues 16 (random s))))\<rparr>))"
  using act dec nonempty enc
  by (simp add: rescue_def Let_def encrypt_def split_beta deriveKey_def encryptWithKey_def
      bufarg_b64_def b64url_roundtrip saveState_def emit_def)

text \<open>On a note that is not the active one, the recovery only reports success.\<close>

lemma rescue_inactive:
  assumes "activeId s \<noteq> Some (note_id n)"
    and "decompress p (content n) = Some recovered"
    and "recovered \<noteq> []"
  shows "rescue p password n s =
     emit (Alert ''Success! Your note was recovered and re-secured. (It was affected by a minor sync bug that has now been fixed).'')
       (closeUnlockModal
         (emit (Warn ''Note appears to be corrupted by auto-save bug. Rescuing content...'') s))"
  using assms by (simp add: rescue_def Let_def)


lemma demo_corrupt_decompress:
  "decompress demo_platform (content demo_corrupt_note) = Some (js ''hello #tag1 world'')"
  by (simp add: decompress_def demo_corrupt_note_def demo_locked_note_def demo_platform_def codec_defs)

lemma demo_corrupt_decrypt:
  "try_decrypt demo_platform (js ''new'') demo_corrupt_note = None"
  by (simp add: try_decrypt_def demo_corrupt_note_def demo_locked_note_def deriveKey_def
      decryptWithKey_def of_nullable_def demo_platform_def codec_defs)


lemma index_clean_update_all:
  "index_clean ns \<Longrightarrow> (\<And>m. cache_clean (f m)) \<Longrightarrow> index_clean (update_first P f ns)"
  by (induction ns) (auto simp: index_clean_def)

lemma index_clean_update_found:
  "index_clean ns \<Longrightarrow> find P ns = Some n \<Longrightarrow> cache_clean (f n) \<Longrightarrow>
     index_clean (update_first P f ns)"
  by (induction ns) (auto simp: index_clean_def split: if_splits)

lemma lock_failed_simps [simp]:
  "notebooks (lock_failed s) = notebooks s" "stored_notebooks (lock_failed s) = stored_notebooks s"
  by (simp_all add: lock_failed_def)

lemma closeLockModal_simps [simp]:
  "notebooks (closeLockModal s) = notebooks s"
  "stored_notebooks (closeLockModal s) = stored_notebooks s"
  "activeId (closeLockModal s) = activeId s"
  by (simp_all add: closeLockModal_def closeModal_def)

lemma confirmLock_clean:
  assumes "index_clean (notebooks s)" "index_clean (stored_notebooks s)"
  shows "index_clean (notebooks (confirmLock p s)) \<and> index_clean (stored_notebooks (confirmLock p s))"
proof -
  have u: "index_clean (update_first P
      (\<lambda>m. m\<lparr>content := a, salt := b, iv := c, encrypted := True, lastModified := d,
              searchableContent := Some []\<rparr>) (notebooks s))" for P a b c d
    using assms(1) by (rule index_clean_update_all) (simp add: cache_clean_def)
  show ?thesis
    using assms u unfolding confirmLock_def Let_def
    by (auto split: option.splits prod.splits)
qed

lemma rebuild_note_clean: "cache_clean n \<Longrightarrow> cache_clean (fst (rebuild_note p n))"
  by (auto simp: rebuild_note_def needs_index_def cache_clean_def split: option.splits)

lemma rebuildSearchIndex_clean:
  assumes "index_clean (notebooks s)"
  shows "index_clean (notebooks (rebuildSearchIndex p s)) \<and>
         index_clean (stored_notebooks (rebuildSearchIndex p s))"
  using assms
  by (simp add: rebuildSearchIndex_def index_clean_def list_all_iff rebuild_note_clean saveState_def)

lemma rescue_clean:
  assumes "index_clean (notebooks s)" "index_clean (stored_notebooks s)"
  shows "index_clean (notebooks (rescue p password n s)) \<and>
         index_clean (stored_notebooks (rescue p password n s))"
proof -
  have u: "index_clean (update_first P
      (\<lambda>m. m\<lparr>content := a, salt := b, iv := c, searchableContent := Some []\<rparr>) (notebooks s))"
    for P a b c
    using assms(1) by (rule index_clean_update_all) (simp add: cache_clean_def)
  show ?thesis
    using assms u unfolding rescue_def Let_def incorrect_password_def
    by (auto split: option.splits prod.splits sum.splits if_splits)
qed

lemma saveAction_clean:
  assumes clean: "index_clean (notebooks s)" "index_clean (stored_notebooks s)"
    and found: "find_note (activeId s) (notebooks s) = Some n"
    and plain: "\<not> encrypted n \<or> sessionKeys s (note_id n) = None"
  shows "index_clean (notebooks (saveAction p s)) \<and> index_clean (stored_notebooks (saveAction p s))"
proof (cases "encrypted n \<or> contentEditable s = js ''false''")
  case True
  with found plain have "saveAction p s = s \<or>
      saveAction p s = emit (Warn ''Attempted to save encrypted note without session key. Aborting save to prevent corruption.'') s"
    by (auto simp: saveAction_def Let_def)
  with clean show ?thesis by auto
next
  case False
  then have w: "notebooks (saveAction p s) =
      update_first (has_id (note_id n))
        (save_fields p (innerText s) (compress p (innerText s)) (now s)) (notebooks s)"
    "stored_notebooks (saveAction p s) = notebooks (saveAction p s)"
    using saveAction_written(1,4) [OF found, of p "compress p (innerText s)"] by simp_all
  from found obtain a where a: "find (has_id a) (notebooks s) = Some n"
    by (auto simp: find_note_def split: option.splits)
  then have "has_id a n" by (auto simp: find_Some_iff)
  then have id: "note_id n = a" by (simp add: has_id_def)
  have "cache_clean (save_fields p (innerText s) (compress p (innerText s)) (now s) n)"
    using False by (simp add: cache_clean_def save_fields_def)
  with clean(1) a have "index_clean (notebooks (saveAction p s))"
    unfolding w id by (intro index_clean_update_found)
  with w show ?thesis by simp
qed

text \<open>A decryption that succeeds fills the search cache of the note and persists it.\<close>

lemma unlock_success:
  assumes "unlock_input s \<noteq> []"
    and "find_note (pendingId s) (notebooks s) = Some n"
    and "try_decrypt p (unlock_input s) n = Some (key, plain)"
  shows "notebooks (confirmUnlock p s) =
           update_first (has_id (note_id n)) (\<lambda>m. m\<lparr>searchableContent := Some (searchable p plain)\<rparr>)
             (notebooks s)"
    and "stored_notebooks (confirmUnlock p s) = notebooks (confirmUnlock p s)"
    and "sessionKeys (confirmUnlock p s) = (sessionKeys s)(note_id n \<mapsto> key)"
  using assms by (simp_all add: confirmUnlock_def Let_def)


lemma demo_right_password:
  "try_decrypt demo_platform (js ''secret'') demo_locked_note =
     Some (TextEncoder_encode (js ''secret'') @ fst (getRandomValues 16 (random demo_manager)),
           js ''hello #tag1 world'')"
  by (simp add: try_decrypt_def demo_locked_note_def deriveKey_def decryptWithKey_def
      of_nullable_def demo_platform_def codec_defs getRandomValues_def demo_manager_def
      upt_numeral_last)

lemma demo_searchable:
  "searchable demo_platform (js ''hello #tag1 world'') = js ''hello #tag1 world''"
  by (simp add: searchable_def demo_platform_def js_def img_match_def startsWith_def)


lemma saveAction_frame:
  "contentEditable (saveAction p s) = contentEditable s \<and> activeId (saveAction p s) = activeId s \<and>
   sessionKeys (saveAction p s) = sessionKeys s"
  unfolding saveAction_def Let_def
  by (auto simp: saveState_def updateDocumentTitle_def emit_def split: option.splits sum.splits)

text \<open>One autosave of an unlocked encrypted note: the nonce is the one stored in the note.\<close>

lemma autosave_encrypts:
  assumes found: "find_note (activeId s) (notebooks s) = Some n"
    and enc: "encrypted n"
    and key: "sessionKeys s (note_id n) = Some k"
    and nonce: "iv n = Some ivs" "fromBase64 (from_urlsafe ivs) = Some ivb"
    and editable: "contentEditable s \<noteq> js ''false''"
    and ct: "aes_gcm_encrypt p k ivb (TextEncoder_encode (innerText s)) = Some ct"
  shows "\<exists>n'. find_note (activeId s) (notebooks (saveAction p s)) = Some n' \<and>
           content n' = to_urlsafe (toBase64 ct) \<and> iv n' = iv n \<and> encrypted n' \<and>
           note_id n' = note_id n"
proof -
  from found obtain a where a: "activeId s = Some a"
    by (auto simp: find_note_def split: option.splits)
  have e: "if encrypted n
         then \<exists>key r. sessionKeys s (note_id n) = Some key \<and>
                encryptWithKey p (innerText s) key (of_nullable (salt n)) (of_nullable (iv n)) = Some r \<and>
                to_urlsafe (toBase64 ct) = encryptedData r
         else to_urlsafe (toBase64 ct) = compress p (innerText s)"
    using enc key nonce ct by (simp add: encryptWithKey_def of_nullable_def)
  have nb: "notebooks (saveAction p s) =
      update_first (has_id (note_id n))
        (save_fields p (innerText s) (to_urlsafe (toBase64 ct)) (now s)) (notebooks s)"
    by (rule saveAction_written(1) [OF found editable e])
  have "find_note (Some a) (notebooks (saveAction p s)) =
      Some (save_fields p (innerText s) (to_urlsafe (toBase64 ct)) (now s) n)"
    unfolding nb by (rule find_note_update_first) (use found a in simp_all)
  with a enc show ?thesis by (simp add: save_fields_def)
qed


lemma demo_nonce:
  "fromBase64 (from_urlsafe (js ''EBESExQVFhcYGRob'')) =
     Some (fst (getRandomValues 12 (snd (getRandomValues 16 (random demo_manager)))))"
  by (simp add: codec_defs getRandomValues_def demo_manager_def upt_numeral_last)

lemma demo_fragment_decompress: "decompress demo_platform demo_fragment = Some demo_payload"
  by (simp add: decompress_def demo_fragment_def demo_payload_def demo_platform_def codec_defs)

text \<open>A lock that goes through leaves the note encrypted, its search cache empty.\<close>

lemma confirmLock_locks:
  assumes pw: "lock_input s \<noteq> []"
    and found: "find_note (pendingId s) (notebooks s) = Some n"
    and plain: "\<not> encrypted n"
    and total: "\<And>k nonce pt. length nonce = 12 \<Longrightarrow> aes_gcm_encrypt p k nonce pt \<noteq> None"
  shows "\<exists>n'. find_note (pendingId s) (stored_notebooks (confirmLock p s)) = Some n' \<and>
           encrypted n' \<and> searchableContent n' = Some []"
proof -
  define saltBytes where "saltBytes = fst (getRandomValues 16 (random s))"
  define ivBytes where "ivBytes = fst (getRandomValues 12 (snd (getRandomValues 16 (random s))))"
  define key where "key = pbkdf2 p (TextEncoder_encode (lock_input s)) saltBytes"
  have "length ivBytes = 12" by (simp add: ivBytes_def)
  from total [OF this] obtain ct where
    ct: "aes_gcm_encrypt p key ivBytes (TextEncoder_encode (innerText s)) = Some ct"
    by blast
  from found obtain i where i: "pendingId s = Some i"
    by (auto simp: find_note_def split: option.splits)
  let ?f = "\<lambda>m. m\<lparr>content := to_urlsafe (toBase64 ct),
                   salt := Some (to_urlsafe (toBase64 saltBytes)),
                   iv := Some (to_urlsafe (toBase64 ivBytes)), encrypted := True,
                   lastModified := now s, searchableContent := Some []\<rparr>"
  have st: "stored_notebooks (confirmLock p s) = update_first (has_id (note_id n)) ?f (notebooks s)"
    using pw found plain ct
    by (simp add: confirmLock_def Let_def encrypt_def split_beta deriveKey_def encryptWithKey_def
        bufarg_b64_def b64url_roundtrip saltBytes_def ivBytes_def key_def)
  have "find_note (Some i) (update_first (has_id (note_id n)) ?f (notebooks s)) = Some (?f n)"
    by (rule find_note_update_first) (use found i in simp_all)
  then show ?thesis by (simp add: st i)
qed

text \<open>An autosave of an unlocked encrypted note fills its search cache from the surface.\<close>

lemma autosave_fills_cache:
  assumes found: "find_note (activeId s) (notebooks s) = Some n"
    and enc: "encrypted n"
    and editable: "contentEditable s \<noteq> js ''false''"
    and key: "sessionKeys s (note_id n) = Some key"
    and r: "encryptWithKey p (innerText s) key (of_nullable (salt n)) (of_nullable (iv n)) = Some r"
  shows "\<exists>n'. find_note (activeId s) (stored_notebooks (saveAction p s)) = Some n' \<and>
           encrypted n' \<and> searchableContent n' = Some (searchable p (innerText s))"
proof -
  from found obtain a where a: "activeId s = Some a"
    by (auto simp: find_note_def split: option.splits)
  have e: "if encrypted n
         then \<exists>key r'. sessionKeys s (note_id n) = Some key \<and>
                encryptWithKey p (innerText s) key (of_nullable (salt n)) (of_nullable (iv n)) = Some r' \<and>
                encryptedData r = encryptedData r'
         else encryptedData r = compress p (innerText s)"
    using enc key r by simp
  note w = saveAction_written(1,4) [OF found editable e]
  have "find_note (Some a) (notebooks (saveAction p s)) =
      Some (save_fields p (innerText s) (encryptedData r) (now s) n)"
    unfolding w(1) by (rule find_note_update_first) (use found a in simp_all)
  with a enc w(2) show ?thesis by (simp add: save_fields_def)
qed

lemma rebuild_keeps_encrypted:
  "i < length (notebooks s) \<Longrightarrow> encrypted (notebooks s ! i) \<Longrightarrow>
     notebooks (rebuildSearchIndex p s) ! i = notebooks s ! i"
  by (simp add: rebuildSearchIndex_def rebuild_note_def needs_index_def)


lemma replicate_two: "replicate 2 x = [x, x]"
  by (simp add: numeral_2_eq_2)

lemma demo_saved_token:
  "decompress demo_platform (js ''AWhlbGxvICN0YWcxIHdvcmxk'') = Some (js ''hello #tag1 world'')"
  using demo_corrupt_decompress by (simp add: demo_corrupt_note_def)

lemma demo_rebuild:
  "map searchableContent (stored_notebooks (rebuildSearchIndex demo_platform
      (demo_with [demo_unindexed_note, demo_locked_note]))) =
     [Some (js ''hello #tag1 world''), Some []]"
proof -
  have "needs_index demo_unindexed_note"
    by (simp add: needs_index_def demo_unindexed_note_def demo_saved_note_def demo_locked_note_def
        js_def)
  moreover have "content demo_unindexed_note = js ''AWhlbGxvICN0YWcxIHdvcmxk''"
    by (simp add: demo_unindexed_note_def demo_saved_note_def)
  ultimately have "fst (rebuild_note demo_platform demo_unindexed_note) =
      demo_unindexed_note\<lparr>searchableContent := Some (js ''hello #tag1 world'')\<rparr>"
    by (simp add: rebuild_note_def demo_saved_token demo_searchable)
  moreover have "fst (rebuild_note demo_platform demo_locked_note) = demo_locked_note"
    by (simp add: rebuild_note_def needs_index_def demo_locked_note_def)
  moreover have "searchableContent demo_locked_note = Some []"
    by (simp add: demo_locked_note_def)
  ultimately show ?thesis
    by (simp add: rebuildSearchIndex_def demo_with_def)
qed

lemma demo_recovery:
  "map content (stored_notebooks (confirmUnlock demo_platform
      ((demo_with [demo_corrupt_note])\<lparr>pendingId := Some (js ''note-0''), unlock_input := js ''new''\<rparr>))) =
     [js ''aGVsbG8gI3RhZzEgd29ybGRuZXcAAQIDBAUGBwgJCgsMDQ4PEBESExQVFhcYGRobEw=='']"
proof -
  let ?s = "(demo_with [demo_corrupt_note])\<lparr>pendingId := Some (js ''note-0''), unlock_input := js ''new''\<rparr>"
  let ?salt = "fst (getRandomValues 16 (random ?s))"
  let ?iv = "fst (getRandomValues 12 (snd (getRandomValues 16 (random ?s))))"
  let ?ct = "TextEncoder_encode (js ''hello #tag1 world'') @
      (TextEncoder_encode (js ''new'') @ ?salt) @ ?iv @ [19]"
  have pw: "unlock_input ?s \<noteq> []" by (simp add: js_def)
  have f: "find_note (pendingId ?s) (notebooks ?s) = Some demo_corrupt_note"
    by (simp add: demo_eval)
  have a: "activeId ?s = Some (note_id demo_corrupt_note)" by (simp add: demo_eval)
  have ne: "js ''hello #tag1 world'' \<noteq> []" by (simp add: js_def)
  have len: "length (TextEncoder_encode (js ''new'')) = 3"
    by (simp add: codec_defs)
  have nonce: "?iv \<noteq> []" by (simp add: getRandomValues_def)
  have enc: "aes_gcm_encrypt demo_platform
      (pbkdf2 demo_platform (TextEncoder_encode (js ''new'')) ?salt) ?iv
      (TextEncoder_encode (js ''hello #tag1 world'')) = Some ?ct"
    using nonce by (simp add: demo_platform_def len)
  have cu: "confirmUnlock demo_platform ?s = rescue demo_platform (js ''new'') demo_corrupt_note ?s"
    using pw f demo_corrupt_decrypt by (simp add: confirmUnlock_def Let_def)
  have tok: "to_urlsafe (toBase64 ?ct) =
      js ''aGVsbG8gI3RhZzEgd29ybGRuZXcAAQIDBAUGBwgJCgsMDQ4PEBESExQVFhcYGRobEw==''"
    by (simp add: codec_defs getRandomValues_def demo_with_def demo_manager_def upt_numeral_last
        replicate_two)
  show ?thesis
    unfolding cu rescue_active [OF a demo_corrupt_decompress ne enc] tok
    by (simp add: demo_with_def has_id_def saveState_def)
qed

lemma demo_autosave:
  "map searchableContent (stored_notebooks (saveAction demo_platform
      ((demo_with [demo_saved_note])\<lparr>innerText := js ''Hi''\<rparr>))) = [Some (js ''hi'')]"
proof -
  let ?s = "(demo_with [demo_saved_note])\<lparr>innerText := js ''Hi''\<rparr>"
  have f: "find_note (activeId ?s) (notebooks ?s) = Some demo_saved_note"
    by (simp add: demo_with_def demo_saved_note_def demo_locked_note_def find_note_def has_id_def)
  have e: "contentEditable ?s \<noteq> js ''false''"
    by (simp add: demo_with_def demo_manager_def js_def)
  have p: "\<not> encrypted demo_saved_note" by (simp add: demo_saved_note_def)
  have l: "searchable demo_platform (js ''Hi'') = js ''hi''"
    by (simp add: searchable_def demo_platform_def js_def img_match_def startsWith_def)
  have i: "has_id (note_id demo_saved_note) demo_saved_note" by (simp add: has_id_def)
  from saveAction_written(1,4) [OF f e, of demo_platform "compress demo_platform (innerText ?s)"] p
  show ?thesis
    by (simp add: demo_with_def i save_fields_def l)
qed


text \<open>With the password field empty, \<open>confirmUnlock\<close> does nothing, whatever the state.\<close>

lemma confirmUnlock_empty_password: "unlock_input s = [] \<Longrightarrow> confirmUnlock p s = s"
  by (simp add: confirmUnlock_def)

section \<open>The claims\<close>



text \<open>
  C9. Deleting the active note leaves an active note of the manager's mode in the collection:
  the last remaining note of that mode, or, when none remains, a new untitled empty note.
\<close>

theorem delete_active:
  assumes pend: "pendingId s = Some i" and nonempty: "i \<noteq> []" and active: "activeId s = Some i"
  shows "let s' = confirmDelete p s;
             kept = filter (\<lambda>n. note_id n \<noteq> i) (notebooks s);
             same_mode = filter (\<lambda>n. mode n = mode_mgr s) kept;
             fresh = \<lparr>note_id = uuids s (uuids_used s), title = js ''Untitled Note'', content = [],
                      mode = mode_mgr s, dir = js ''ltr'',
                      paperTheme = (if paperTheme_mgr s = [] then js ''classic'' else paperTheme_mgr s),
                      createdAt = now s, lastModified = now s, encrypted = False, salt = None,
                      iv = None, pinned = False, tags = [], searchableContent = None\<rparr>
         in mode_mgr s' = mode_mgr s \<and>
            (\<exists>n \<in> set (notebooks s'). activeId s' = Some (note_id n) \<and> mode n = mode_mgr s') \<and>
            notebooks s' = (if same_mode = [] then kept @ [fresh] else kept) \<and>
            activeId s' = Some (note_id (if same_mode = [] then fresh else last same_mode)) \<and>
            stored_notebooks s' = notebooks s' \<and> stored_activeId s' = activeId s'"
proof -
  define kept where "kept = filter (\<lambda>n. note_id n \<noteq> i) (notebooks s)"
  define same_mode where "same_mode = filter (\<lambda>n. mode n = mode_mgr s) kept"
  define s0 where "s0 = s\<lparr>notebooks := kept, activeId := None\<rparr>"
  define s' where "s' = confirmDelete p s"
  have s': "s' = (closeModal DeleteModal (loadActiveNote p (ensureActiveNote s0)))\<lparr>pendingId := None\<rparr>"
    using pend nonempty active by (simp add: s'_def confirmDelete_def s0_def kept_def)
  have fields: "notebooks s' = notebooks (ensureActiveNote s0)"
    "activeId s' = activeId (ensureActiveNote s0)"
    "mode_mgr s' = mode_mgr (ensureActiveNote s0)"
    "stored_notebooks s' = stored_notebooks (ensureActiveNote s0)"
    "stored_activeId s' = stored_activeId (ensureActiveNote s0)"
    by (simp_all add: s')
  show ?thesis
  proof (cases "same_mode = []")
    case True
    then have "filter (\<lambda>n. mode n = mode_mgr s0) (notebooks s0) = []"
      by (simp add: s0_def same_mode_def)
    then have "ensureActiveNote s0 =
        saveState ((snd (addNotebook (js ''Untitled Note'') [] (mode_mgr s0) s0))
          \<lparr>activeId := Some (note_id (fst (addNotebook (js ''Untitled Note'') [] (mode_mgr s0) s0)))\<rparr>)"
      by (simp add: ensureActiveNote_def Let_def split: prod.splits)
    with True fields show ?thesis
      unfolding Let_def s'_def [symmetric] kept_def [symmetric] same_mode_def [symmetric]
      by (simp add: addNotebook_def Let_def s0_def saveState_def)
  next
    case False
    then have ne: "filter (\<lambda>n. mode n = mode_mgr s0) (notebooks s0) \<noteq> []"
      by (simp add: s0_def same_mode_def)
    then have e: "ensureActiveNote s0 = saveState (s0\<lparr>activeId := Some (note_id (last same_mode))\<rparr>)"
      by (simp add: ensureActiveNote_def Let_def) (simp add: s0_def same_mode_def)
    from False have "last same_mode \<in> set same_mode" by simp
    then have "last same_mode \<in> set kept \<and> mode (last same_mode) = mode_mgr s"
      by (simp add: same_mode_def)
    with False fields e show ?thesis
      unfolding Let_def s'_def [symmetric] kept_def [symmetric] same_mode_def [symmetric]
      by (auto simp: s0_def)
  qed
qed

text \<open>
  Two runs: with another note of the mode in the collection, and with none, where the new
  active note is a fresh one.
\<close>

theorem delete_active_witness:
  "activeId (confirmDelete demo_platform
      ((demo_with [demo_plain_note, demo_locked_note])\<lparr>pendingId := Some (js ''note-0'')\<rparr>)) =
     Some (js ''note-1'') \<and>
   notebooks (confirmDelete demo_platform
      ((demo_with [demo_plain_note, demo_locked_note])\<lparr>pendingId := Some (js ''note-0'')\<rparr>)) =
     [demo_plain_note] \<and>
   map title (notebooks (confirmDelete demo_platform
      ((demo_with [demo_locked_note])\<lparr>pendingId := Some (js ''note-0'')\<rparr>))) = [js ''Untitled Note''] \<and>
   activeId (confirmDelete demo_platform
      ((demo_with [demo_locked_note])\<lparr>pendingId := Some (js ''note-0'')\<rparr>)) = Some (js ''note-0'')"
proof -
  let ?s = "(demo_with [demo_plain_note, demo_locked_note])\<lparr>pendingId := Some (js ''note-0'')\<rparr>"
  let ?t = "(demo_with [demo_locked_note])\<lparr>pendingId := Some (js ''note-0'')\<rparr>"
  have h2: "js ''note-0'' \<noteq> []" by (simp add: js_def)
  have s1: "pendingId ?s = Some (js ''note-0'')" by simp
  have s3: "activeId ?s = Some (js ''note-0'')" by (simp add: demo_with_def)
  have sk: "filter (\<lambda>n. note_id n \<noteq> js ''note-0'') (notebooks ?s) = [demo_plain_note]"
    by (simp add: demo_with_def demo_plain_note_def demo_locked_note_def js_def)
  have m: "mode demo_plain_note = mode_mgr ?s" "note_id demo_plain_note = js ''note-1''"
    by (simp_all add: demo_with_def demo_manager_def demo_plain_note_def)
  have t1: "pendingId ?t = Some (js ''note-0'')" by simp
  have t3: "activeId ?t = Some (js ''note-0'')" by (simp add: demo_with_def)
  have tk: "filter (\<lambda>n. note_id n \<noteq> js ''note-0'') (notebooks ?t) = []"
    by (simp add: demo_with_def demo_locked_note_def)
  have u: "uuids (demo_with [demo_locked_note]) (uuids_used (demo_with [demo_locked_note])) =
      js ''note-0''"
    by (simp add: demo_with_def demo_manager_def js_def)
  have first: "activeId (confirmDelete demo_platform ?s) = Some (js ''note-1'') \<and>
      notebooks (confirmDelete demo_platform ?s) = [demo_plain_note]"
    using delete_active [OF s1 h2 s3, of demo_platform] unfolding Let_def sk by (simp add: m)
  have second: "map title (notebooks (confirmDelete demo_platform ?t)) = [js ''Untitled Note''] \<and>
      activeId (confirmDelete demo_platform ?t) = Some (js ''note-0'')"
    using delete_active [OF t1 h2 t3, of demo_platform] unfolding Let_def tk by (simp add: u)
  from first second show ?thesis by simp
qed


text \<open>
  C10. The autosave changes the title of the active note only when the title is
  \<open>Untitled Note\<close> or \<open>Shared Note\<close> and the trimmed first line, cut to 30 code units, is
  longer than 2; the title is then that line. In every other case, also when the save is
  skipped, the title stays.
\<close>

theorem autosave_auto_title:
  assumes found: "find_note (activeId s) (notebooks s) = Some n"
  shows "let firstLine = take 30 (trim (takeWhile (\<lambda>ch. ch \<noteq> 10) (innerText s)));
             writes = (contentEditable s \<noteq> js ''false'' \<and>
               (encrypted n \<longrightarrow>
                  (\<exists>key. sessionKeys s (note_id n) = Some key \<and>
                     encryptWithKey p (innerText s) key (of_nullable (salt n)) (of_nullable (iv n)) \<noteq> None)))
         in \<exists>n'. find_note (activeId s) (notebooks (saveAction p s)) = Some n' \<and>
              title n' =
                (if writes \<and> (title n = js ''Untitled Note'' \<or> title n = js ''Shared Note'') \<and>
                    2 < length firstLine
                 then firstLine else title n)"
proof -
  define writes where "writes \<longleftrightarrow> contentEditable s \<noteq> js ''false'' \<and>
               (encrypted n \<longrightarrow>
                  (\<exists>key. sessionKeys s (note_id n) = Some key \<and>
                     encryptWithKey p (innerText s) key (of_nullable (salt n)) (of_nullable (iv n)) \<noteq> None))"
  from found obtain a where a: "activeId s = Some a"
    by (auto simp: find_note_def split: option.splits)
  show ?thesis
  proof (cases writes)
    case False
    then have "notebooks (saveAction p s) = notebooks s"
      using saveAction_skipped [OF found] by (simp add: writes_def)
    with found False show ?thesis
      unfolding Let_def writes_def [symmetric] by simp
  next
    case True
    then obtain stored where stored: "if encrypted n
         then \<exists>key r. sessionKeys s (note_id n) = Some key \<and>
                encryptWithKey p (innerText s) key (of_nullable (salt n)) (of_nullable (iv n)) = Some r \<and>
                stored = encryptedData r
         else stored = compress p (innerText s)"
      by (cases "encrypted n") (auto simp: writes_def)
    from True have ed: "contentEditable s \<noteq> js ''false''" by (simp add: writes_def)
    have nb: "notebooks (saveAction p s) =
           update_first (has_id (note_id n)) (save_fields p (innerText s) stored (now s)) (notebooks s)"
      by (rule saveAction_written(1) [OF found ed stored])
    have "find_note (Some a) (notebooks (saveAction p s)) =
        Some (save_fields p (innerText s) stored (now s) n)"
      unfolding nb by (rule find_note_update_first) (use found a in simp_all)
    moreover have "title (save_fields p (innerText s) stored (now s) n) =
        (if (title n = js ''Untitled Note'' \<or> title n = js ''Shared Note'') \<and>
            2 < length (take 30 (trim (takeWhile (\<lambda>ch. ch \<noteq> 10) (innerText s))))
         then take 30 (trim (takeWhile (\<lambda>ch. ch \<noteq> 10) (innerText s))) else title n)"
      by (auto simp: save_fields_def auto_title_def first_line_def)
    ultimately show ?thesis
      using True a unfolding Let_def writes_def [symmetric] by simp
  qed
qed

theorem autosave_auto_title_witness:
  "\<exists>n'. find_note (Some (js ''note-1''))
           (notebooks (saveAction demo_platform
              ((demo_with [demo_plain_note])\<lparr>activeId := Some (js ''note-1''),
                 innerText := js ''  Shopping list for the long weekend ahead''\<rparr>))) = Some n' \<and>
        title n' = js ''Shopping list for the long wee''"
proof -
  let ?s = "(demo_with [demo_plain_note])\<lparr>activeId := Some (js ''note-1''),
                 innerText := js ''  Shopping list for the long weekend ahead''\<rparr>"
  have h: "find_note (activeId ?s) (notebooks ?s) = Some demo_plain_note"
    by (simp add: demo_with_def demo_plain_note_def find_note_def has_id_def)
  have e: "contentEditable ?s \<noteq> js ''false''" "\<not> encrypted demo_plain_note"
    "title demo_plain_note = js ''Untitled Note''"
    by (simp_all add: demo_with_def demo_manager_def demo_plain_note_def js_def)
  have l: "take 30 (trim (takeWhile (\<lambda>ch. ch \<noteq> 10) (innerText ?s))) =
      js ''Shopping list for the long wee''"
    by (simp add: trim_def js_whitespace_def js_def)
  have len: "2 < length (js ''Shopping list for the long wee'')" by (simp add: js_def)
  from autosave_auto_title [OF h, of demo_platform] show ?thesis
    unfolding Let_def l using e len by simp
qed

text \<open>
  C5, amended. For a non-empty password: when the authenticated decryption fails and the
  content does not decompress to any text, \<open>confirmUnlock\<close> raises the incorrect-password
  alert and changes nothing else: the collection, what is persisted and the session keys
  are as before.
\<close>

theorem unlock_wrong_password:
  assumes "unlock_input s \<noteq> []"
    and "find_note (pendingId s) (notebooks s) = Some n"
    and "try_decrypt p (unlock_input s) n = None"
    and "decompress p (content n) = None \<or> decompress p (content n) = Some []"
  shows "confirmUnlock p s = emit (Alert ''Incorrect password!'') s \<and>
         notebooks (confirmUnlock p s) = notebooks s \<and>
         stored_notebooks (confirmUnlock p s) = stored_notebooks s \<and>
         sessionKeys (confirmUnlock p s) = sessionKeys s"
proof -
  have "confirmUnlock p s = emit (Alert ''Incorrect password!'') s"
    using assms by (auto simp: confirmUnlock_def rescue_def incorrect_password_def)
  then show ?thesis by simp
qed

theorem unlock_wrong_password_witness:
  "console (confirmUnlock demo_platform
     ((demo_with [demo_locked_note])\<lparr>pendingId := Some (js ''note-0''), unlock_input := js ''wrong''\<rparr>)) =
     [Alert ''Incorrect password!''] \<and>
   notebooks (confirmUnlock demo_platform
     ((demo_with [demo_locked_note])\<lparr>pendingId := Some (js ''note-0''), unlock_input := js ''wrong''\<rparr>)) =
     [demo_locked_note]"
proof -
  let ?s = "(demo_with [demo_locked_note])\<lparr>pendingId := Some (js ''note-0''), unlock_input := js ''wrong''\<rparr>"
  have h1: "unlock_input ?s \<noteq> []" by (simp add: js_def)
  have h2: "find_note (pendingId ?s) (notebooks ?s) = Some demo_locked_note"
    by (simp add: demo_eval)
  have h3: "try_decrypt demo_platform (unlock_input ?s) demo_locked_note = None"
    using demo_wrong_password by simp
  have h4: "decompress demo_platform (content demo_locked_note) = None \<or>
      decompress demo_platform (content demo_locked_note) = Some []"
    using demo_locked_not_compressed by simp
  from unlock_wrong_password [OF h1 h2 h3 h4] show ?thesis
    by (simp add: demo_with_def demo_manager_def)
qed

text \<open>
  With the password field empty, \<open>confirmUnlock\<close> returns at its first check: decryption
  with the empty password and the recovery both fail on this note, and yet nothing is
  raised.
\<close>

theorem unlock_empty_password_counterexample:
  "find_note (Some (js ''note-0'')) [demo_locked_note] = Some demo_locked_note \<and>
   encrypted demo_locked_note \<and>
   try_decrypt demo_platform [] demo_locked_note = None \<and>
   decompress demo_platform (content demo_locked_note) = None \<and>
   console (confirmUnlock demo_platform
     ((demo_with [demo_locked_note])\<lparr>pendingId := Some (js ''note-0''), unlock_input := []\<rparr>)) = []"
  using demo_empty_password demo_locked_not_compressed
  by (simp add: confirmUnlock_def demo_eval)

text \<open>
  C6. \<open>compress\<close> yields a token of letters, digits, \<open>-\<close>, \<open>_\<close> and \<open>=\<close>, and
  \<open>decompress\<close> gives a well-formed string back, except that a byte order mark U+FEFF at
  its start is lost: \<open>new TextDecoder()\<close> drops it. The string U+FEFF \<open>a\<close> comes back as
  \<open>a\<close>, on every platform whose decompression inverts its compression.
\<close>

theorem compress_loses_bom:
  assumes "\<And>bs. inflate_raw p (deflate_raw p bs) = Some bs"
  shows "well_formed [65279, 97] \<and> decompress p (compress p [65279, 97]) = Some [97]"
proof -
  have wf: "well_formed [65279, 97]"
    by (simp add: is_high_surrogate_def is_low_surrogate_def)
  from decompress_compress [OF assms wf] wf show ?thesis by simp
qed

theorem compress_loses_bom_witness:
  "decompress demo_platform (compress demo_platform [65279, 97]) = Some [97]"
  using compress_loses_bom [of demo_platform] by (simp add: demo_codec)


text \<open>
  C7, amended. For every well-formed string that does not begin with U+FEFF and every
  password, \<open>encrypt\<close> succeeds and \<open>decrypt\<close> of its token with its salt and nonce returns
  the string.
\<close>

theorem encrypt_decrypt_roundtrip:
  assumes total: "\<And>k nonce pt. length nonce = 12 \<Longrightarrow> aes_gcm_encrypt p k nonce pt \<noteq> None"
    and aead: "\<And>k nonce pt ct. aes_gcm_encrypt p k nonce pt = Some ct \<Longrightarrow>
                 aes_gcm_decrypt p k nonce ct = Some pt"
    and wf: "well_formed s"
    and no_bom: "\<not> startsWith s [65279]"
  shows "encrypt_then_decrypt p s password e = Some s"
proof -
  from no_bom have "(case s of [] \<Rightarrow> [] | c # r \<Rightarrow> if c = 65279 then r else s) = s"
    by (cases s) (simp_all add: startsWith_def)
  with encrypt_then_decrypt_text [OF total aead] TextDecoder_TextEncoder [OF wf]
  show ?thesis by simp
qed

theorem encrypt_decrypt_roundtrip_witness:
  "encrypt_then_decrypt demo_platform (js ''hello'') (js ''secret'') (random demo_manager) =
     Some (js ''hello'')"
proof -
  have wf: "well_formed (js ''hello'')"
    by (simp add: js_def is_high_surrogate_def is_low_surrogate_def)
  have nb: "\<not> startsWith (js ''hello'') [65279]"
    by (simp add: js_def startsWith_def)
  show ?thesis
    by (rule encrypt_decrypt_roundtrip [OF demo_cipher_total demo_cipher_correct wf nb])
qed

text \<open>A surrogate without its partner is encrypted as U+FFFD and comes back as U+FFFD.\<close>

theorem encrypt_decrypt_lone_surrogate_counterexample:
  "encrypt_then_decrypt demo_platform [55296] (js ''secret'') (random demo_manager) = Some [65533] \<and>
   encrypt_then_decrypt demo_platform [55296] (js ''secret'') (random demo_manager) \<noteq> Some [55296]"
proof -
  have "TextDecoder_decode (TextEncoder_encode [55296]) = [65533]"
    by (simp add: codec_defs)
  with encrypt_then_decrypt_text [OF demo_cipher_total demo_cipher_correct, of "[55296]"]
  show ?thesis by simp
qed

text \<open>
  C2. Two autosaves of an unlocked encrypted note, with different texts on the editing
  surface, encrypt both texts under the cached key with the one nonce stored in the note:
  \<open>saveAction\<close> passes \<open>note.iv\<close> to \<open>encryptWithKey\<close> and never draws a new one.
\<close>

theorem autosave_reuses_nonce:
  assumes found: "find_note (activeId s) (notebooks s) = Some n"
    and enc: "encrypted n"
    and key: "sessionKeys s (note_id n) = Some k"
    and nonce: "iv n = Some ivs" "fromBase64 (from_urlsafe ivs) = Some ivb"
    and editable: "contentEditable s \<noteq> js ''false''"
    and first: "aes_gcm_encrypt p k ivb (TextEncoder_encode (innerText s)) = Some ct1"
    and second: "aes_gcm_encrypt p k ivb (TextEncoder_encode typed) = Some ct2"
  shows "\<exists>n1 n2.
           find_note (activeId s) (notebooks (saveAction p s)) = Some n1 \<and>
           content n1 = to_urlsafe (toBase64 ct1) \<and> iv n1 = Some ivs \<and>
           find_note (activeId s)
             (notebooks (saveAction p ((saveAction p s)\<lparr>innerText := typed\<rparr>))) = Some n2 \<and>
           content n2 = to_urlsafe (toBase64 ct2) \<and> iv n2 = Some ivs"
proof -
  from autosave_encrypts [OF found enc key nonce editable first] obtain n1 where
    n1: "find_note (activeId s) (notebooks (saveAction p s)) = Some n1"
      "content n1 = to_urlsafe (toBase64 ct1)" "iv n1 = iv n" "encrypted n1" "note_id n1 = note_id n"
    by blast
  let ?s = "(saveAction p s)\<lparr>innerText := typed\<rparr>"
  have fr: "contentEditable ?s = contentEditable s" "activeId ?s = activeId s"
    "sessionKeys ?s = sessionKeys s" "notebooks ?s = notebooks (saveAction p s)"
    "innerText ?s = typed"
    using saveAction_frame [of p s] by simp_all
  have "\<exists>n'. find_note (activeId ?s) (notebooks (saveAction p ?s)) = Some n' \<and>
           content n' = to_urlsafe (toBase64 ct2) \<and> iv n' = iv n1 \<and> encrypted n' \<and>
           note_id n' = note_id n1"
    by (rule autosave_encrypts [where k = k and ivs = ivs and ivb = ivb])
      (use n1 fr key nonce editable second in simp_all)
  then obtain n2 where
    "find_note (activeId s) (notebooks (saveAction p ?s)) = Some n2"
    "content n2 = to_urlsafe (toBase64 ct2)" "iv n2 = iv n1"
    unfolding fr by blast
  with n1 nonce show ?thesis by auto
qed

theorem autosave_reuses_nonce_witness:
  "\<exists>n1 n2.
     find_note (activeId demo_unlocked) (notebooks (saveAction demo_platform demo_unlocked)) = Some n1 \<and>
     content n1 = to_urlsafe (toBase64
       (TextEncoder_encode (js ''a'') @ [7] @
        fst (getRandomValues 12 (snd (getRandomValues 16 (random demo_manager)))) @ [1])) \<and>
     iv n1 = Some (js ''EBESExQVFhcYGRob'') \<and>
     find_note (activeId demo_unlocked)
       (notebooks (saveAction demo_platform
          ((saveAction demo_platform demo_unlocked)\<lparr>innerText := js ''b''\<rparr>))) = Some n2 \<and>
     content n2 = to_urlsafe (toBase64
       (TextEncoder_encode (js ''b'') @ [7] @
        fst (getRandomValues 12 (snd (getRandomValues 16 (random demo_manager)))) @ [1])) \<and>
     iv n2 = Some (js ''EBESExQVFhcYGRob'')"
proof -
  let ?ivb = "fst (getRandomValues 12 (snd (getRandomValues 16 (random demo_manager))))"
  have h1: "find_note (activeId demo_unlocked) (notebooks demo_unlocked) = Some demo_locked_note"
    by (simp add: demo_unlocked_def demo_eval)
  have h2: "encrypted demo_locked_note" by (simp add: demo_locked_note_def)
  have h3: "sessionKeys demo_unlocked (note_id demo_locked_note) = Some [7]"
    by (simp add: demo_unlocked_def demo_eval)
  have h4: "iv demo_locked_note = Some (js ''EBESExQVFhcYGRob'')" by (simp add: demo_locked_note_def)
  have h5: "contentEditable demo_unlocked \<noteq> js ''false''"
    by (simp add: demo_unlocked_def demo_eval js_def)
  have ne: "?ivb \<noteq> []" by (simp add: getRandomValues_def)
  have c: "aes_gcm_encrypt demo_platform [7] ?ivb (TextEncoder_encode t) =
      Some (TextEncoder_encode t @ [7] @ ?ivb @ [1])" for t
    using ne by (simp add: demo_platform_def)
  have i: "innerText demo_unlocked = js ''a''" by (simp add: demo_unlocked_def)
  from autosave_reuses_nonce [OF h1 h2 h3 h4 demo_nonce h5 c [of "innerText demo_unlocked"]
      c [of "js ''b''"]]
  show ?thesis unfolding i .
qed

text \<open>
  C3, amended. Locking, rebuilding the search index, an unlock whose decryption fails (the
  recovery included) and an autosave of a note that is not encrypted or has no session key
  keep the search cache of every encrypted note empty or absent, in the collection and in
  what is persisted. The rebuild leaves every encrypted note as it is, and a lock that
  encrypts a note leaves it with an empty cache. An unlock whose decryption succeeds stores
  the lower-cased, image-stripped plaintext in the note and persists it, the note staying
  encrypted; an autosave of an unlocked encrypted note stores the lower-cased,
  image-stripped text of the editing surface in the same way.
\<close>

theorem search_cache_invariant:
  assumes "index_clean (notebooks s)" and "index_clean (stored_notebooks s)"
  shows "index_clean (notebooks (confirmLock p s)) \<and>
         index_clean (stored_notebooks (confirmLock p s)) \<and>
         index_clean (notebooks (rebuildSearchIndex p s)) \<and>
         index_clean (stored_notebooks (rebuildSearchIndex p s)) \<and>
         (\<forall>n. find_note (pendingId s) (notebooks s) = Some n \<and>
              try_decrypt p (unlock_input s) n = None \<longrightarrow>
              index_clean (notebooks (confirmUnlock p s)) \<and>
              index_clean (stored_notebooks (confirmUnlock p s))) \<and>
         (\<forall>n. find_note (activeId s) (notebooks s) = Some n \<and>
              (\<not> encrypted n \<or> sessionKeys s (note_id n) = None) \<longrightarrow>
              index_clean (notebooks (saveAction p s)) \<and>
              index_clean (stored_notebooks (saveAction p s))) \<and>
         (\<forall>i. i < length (notebooks s) \<and> encrypted (notebooks s ! i) \<longrightarrow>
              notebooks (rebuildSearchIndex p s) ! i = notebooks s ! i) \<and>
         (\<forall>n. lock_input s \<noteq> [] \<and> find_note (pendingId s) (notebooks s) = Some n \<and>
              \<not> encrypted n \<and> (\<forall>k nonce pt. length nonce = 12 \<longrightarrow> aes_gcm_encrypt p k nonce pt \<noteq> None) \<longrightarrow>
              (\<exists>n'. find_note (pendingId s) (stored_notebooks (confirmLock p s)) = Some n' \<and>
                 encrypted n' \<and> searchableContent n' = Some [])) \<and>
         (\<forall>n key plain. unlock_input s \<noteq> [] \<and> find_note (pendingId s) (notebooks s) = Some n \<and>
              try_decrypt p (unlock_input s) n = Some (key, plain) \<longrightarrow>
              find_note (pendingId s) (stored_notebooks (confirmUnlock p s)) =
                Some (n\<lparr>searchableContent := Some (searchable p plain)\<rparr>)) \<and>
         (\<forall>n key r. find_note (activeId s) (notebooks s) = Some n \<and> encrypted n \<and>
              contentEditable s \<noteq> js ''false'' \<and> sessionKeys s (note_id n) = Some key \<and>
              encryptWithKey p (innerText s) key (of_nullable (salt n)) (of_nullable (iv n)) = Some r \<longrightarrow>
              (\<exists>n'. find_note (activeId s) (stored_notebooks (saveAction p s)) = Some n' \<and>
                 encrypted n' \<and> searchableContent n' = Some (searchable p (innerText s))))"
proof -
  have failed: "index_clean (notebooks (confirmUnlock p s)) \<and>
      index_clean (stored_notebooks (confirmUnlock p s))"
    if "find_note (pendingId s) (notebooks s) = Some n" "try_decrypt p (unlock_input s) n = None"
    for n
  proof (cases "unlock_input s = []")
    case True
    with assms show ?thesis by (simp add: confirmUnlock_def)
  next
    case False
    with that have "confirmUnlock p s = rescue p (unlock_input s) n s"
      by (simp add: confirmUnlock_def)
    with rescue_clean [OF assms] show ?thesis by simp
  qed
  have succeeded: "find_note (pendingId s) (stored_notebooks (confirmUnlock p s)) =
      Some (n\<lparr>searchableContent := Some (searchable p plain)\<rparr>)"
    if pw: "unlock_input s \<noteq> []" and f: "find_note (pendingId s) (notebooks s) = Some n"
      and d: "try_decrypt p (unlock_input s) n = Some (key, plain)"
    for n key plain
  proof -
    from f obtain i where i: "pendingId s = Some i"
      by (auto simp: find_note_def split: option.splits)
    show ?thesis
      unfolding unlock_success(2) [OF pw f d] unlock_success(1) [OF pw f d] i
      by (rule find_note_update_first) (use f i in simp_all)
  qed
  have locked: "\<exists>n'. find_note (pendingId s) (stored_notebooks (confirmLock p s)) = Some n' \<and>
      encrypted n' \<and> searchableContent n' = Some []"
    if "lock_input s \<noteq> []" "find_note (pendingId s) (notebooks s) = Some n" "\<not> encrypted n"
      "\<forall>k nonce pt. length nonce = 12 \<longrightarrow> aes_gcm_encrypt p k nonce pt \<noteq> None"
    for n
    using that by (intro confirmLock_locks) auto
  note preserved = confirmLock_clean [OF assms] rebuildSearchIndex_clean [OF assms(1)]
  show ?thesis
    using preserved failed saveAction_clean [OF assms] rebuild_keeps_encrypted [of _ s p]
      locked succeeded autosave_fills_cache [of s _ _ p]
    by (intro conjI allI impI) (blast+)
qed


text \<open>
  Six runs, each one writing to the collection: a lock, a rebuild, a recovery, an autosave
  of a plain note, an unlock with the right password and an autosave of the unlocked note.
\<close>

theorem search_cache_invariant_witness:
  "index_clean (stored_notebooks (confirmLock demo_platform
      ((demo_with [demo_saved_note])\<lparr>pendingId := Some (js ''note-0''), lock_input := js ''secret''\<rparr>))) \<and>
   \<not> encrypted demo_saved_note \<and>
   (\<exists>n'. find_note (Some (js ''note-0''))
      (stored_notebooks (confirmLock demo_platform
        ((demo_with [demo_saved_note])\<lparr>pendingId := Some (js ''note-0''), lock_input := js ''secret''\<rparr>))) =
        Some n' \<and> encrypted n' \<and> searchableContent n' = Some []) \<and>
   index_clean (stored_notebooks (rebuildSearchIndex demo_platform
      (demo_with [demo_unindexed_note, demo_locked_note]))) \<and>
   map searchableContent (stored_notebooks (rebuildSearchIndex demo_platform
      (demo_with [demo_unindexed_note, demo_locked_note]))) =
     [Some (js ''hello #tag1 world''), Some []] \<and>
   index_clean (stored_notebooks (confirmUnlock demo_platform
      ((demo_with [demo_corrupt_note])\<lparr>pendingId := Some (js ''note-0''), unlock_input := js ''new''\<rparr>))) \<and>
   map content (stored_notebooks (confirmUnlock demo_platform
      ((demo_with [demo_corrupt_note])\<lparr>pendingId := Some (js ''note-0''), unlock_input := js ''new''\<rparr>))) =
     [js ''aGVsbG8gI3RhZzEgd29ybGRuZXcAAQIDBAUGBwgJCgsMDQ4PEBESExQVFhcYGRobEw==''] \<and>
   index_clean (stored_notebooks (saveAction demo_platform
      ((demo_with [demo_saved_note])\<lparr>innerText := js ''Hi''\<rparr>))) \<and>
   map searchableContent (stored_notebooks (saveAction demo_platform
      ((demo_with [demo_saved_note])\<lparr>innerText := js ''Hi''\<rparr>))) = [Some (js ''hi'')] \<and>
   find_note (Some (js ''note-0''))
     (stored_notebooks (confirmUnlock demo_platform
       ((demo_with [demo_locked_note])\<lparr>pendingId := Some (js ''note-0''), unlock_input := js ''secret''\<rparr>))) =
     Some (demo_locked_note\<lparr>searchableContent := Some (js ''hello #tag1 world'')\<rparr>) \<and>
   (\<exists>n'. find_note (Some (js ''note-0'')) (stored_notebooks (saveAction demo_platform demo_unlocked)) =
        Some n' \<and> encrypted n' \<and> searchableContent n' = Some (js ''a''))"
proof -
  let ?L = "(demo_with [demo_saved_note])\<lparr>pendingId := Some (js ''note-0''), lock_input := js ''secret''\<rparr>"
  let ?R = "demo_with [demo_unindexed_note, demo_locked_note]"
  let ?U = "(demo_with [demo_corrupt_note])\<lparr>pendingId := Some (js ''note-0''), unlock_input := js ''new''\<rparr>"
  let ?A = "(demo_with [demo_saved_note])\<lparr>innerText := js ''Hi''\<rparr>"
  let ?S = "(demo_with [demo_locked_note])\<lparr>pendingId := Some (js ''note-0''), unlock_input := js ''secret''\<rparr>"
  have clean: "cache_clean demo_saved_note" "cache_clean demo_unindexed_note"
    "cache_clean demo_locked_note" "cache_clean demo_corrupt_note"
    by (simp_all add: cache_clean_def demo_saved_note_def demo_unindexed_note_def
        demo_locked_note_def demo_corrupt_note_def)
  have plain: "\<not> encrypted demo_saved_note" by (simp add: demo_saved_note_def)

  have L: "index_clean (notebooks ?L)" "index_clean (stored_notebooks ?L)"
    using clean by (simp_all add: demo_with_def index_clean_def)
  have Lpw: "lock_input ?L \<noteq> []" by (simp add: js_def)
  have Lf: "find_note (pendingId ?L) (notebooks ?L) = Some demo_saved_note"
    by (simp add: demo_with_def demo_saved_note_def demo_locked_note_def find_note_def has_id_def)
  have Lt: "\<forall>k nonce pt. length nonce = 12 \<longrightarrow> aes_gcm_encrypt demo_platform k nonce pt \<noteq> None"
    using demo_cipher_total by blast
  note tL = search_cache_invariant [OF L, of demo_platform]
  have a1: "index_clean (stored_notebooks (confirmLock demo_platform ?L))"
    using tL by blast
  have a2: "\<exists>n'. find_note (pendingId ?L) (stored_notebooks (confirmLock demo_platform ?L)) = Some n' \<and>
      encrypted n' \<and> searchableContent n' = Some []"
    using tL Lpw Lf plain Lt by blast

  have R: "index_clean (notebooks ?R)" "index_clean (stored_notebooks ?R)"
    using clean by (simp_all add: demo_with_def index_clean_def)
  have b1: "index_clean (stored_notebooks (rebuildSearchIndex demo_platform ?R))"
    using search_cache_invariant [OF R, of demo_platform] by blast

  have U: "index_clean (notebooks ?U)" "index_clean (stored_notebooks ?U)"
    using clean by (simp_all add: demo_with_def index_clean_def)
  have Uf: "find_note (pendingId ?U) (notebooks ?U) = Some demo_corrupt_note"
    by (simp add: demo_eval)
  have Ud: "try_decrypt demo_platform (unlock_input ?U) demo_corrupt_note = None"
    using demo_corrupt_decrypt by simp
  have c1: "index_clean (stored_notebooks (confirmUnlock demo_platform ?U))"
    using search_cache_invariant [OF U, of demo_platform] Uf Ud by blast

  have A: "index_clean (notebooks ?A)" "index_clean (stored_notebooks ?A)"
    using clean by (simp_all add: demo_with_def index_clean_def)
  have Af: "find_note (activeId ?A) (notebooks ?A) = Some demo_saved_note"
    by (simp add: demo_with_def demo_saved_note_def demo_locked_note_def find_note_def has_id_def)
  have d1: "index_clean (stored_notebooks (saveAction demo_platform ?A))"
    using search_cache_invariant [OF A, of demo_platform] Af plain by blast

  have S: "index_clean (notebooks ?S)" "index_clean (stored_notebooks ?S)"
    using clean by (simp_all add: demo_with_def index_clean_def)
  have Spw: "unlock_input ?S \<noteq> []" by (simp add: js_def)
  have Sf: "find_note (pendingId ?S) (notebooks ?S) = Some demo_locked_note"
    by (simp add: demo_eval)
  have Sd: "try_decrypt demo_platform (unlock_input ?S) demo_locked_note =
     Some (TextEncoder_encode (js ''secret'') @ fst (getRandomValues 16 (random demo_manager)),
           js ''hello #tag1 world'')"
    using demo_right_password by simp
  have e1: "find_note (pendingId ?S) (stored_notebooks (confirmUnlock demo_platform ?S)) =
      Some (demo_locked_note\<lparr>searchableContent := Some (searchable demo_platform (js ''hello #tag1 world''))\<rparr>)"
    using search_cache_invariant [OF S, of demo_platform] Spw Sf Sd by blast

  have K: "index_clean (notebooks demo_unlocked)" "index_clean (stored_notebooks demo_unlocked)"
    using clean by (simp_all add: demo_unlocked_def demo_with_def index_clean_def)
  have Kf: "find_note (activeId demo_unlocked) (notebooks demo_unlocked) = Some demo_locked_note"
    by (simp add: demo_unlocked_def demo_eval)
  have Ke: "encrypted demo_locked_note" by (simp add: demo_locked_note_def)
  have Kc: "contentEditable demo_unlocked \<noteq> js ''false''"
    by (simp add: demo_unlocked_def demo_eval js_def)
  have Kk: "sessionKeys demo_unlocked (note_id demo_locked_note) = Some [7]"
    by (simp add: demo_unlocked_def demo_eval)
  have nonce: "fst (getRandomValues 12 (snd (getRandomValues 16 (random demo_manager)))) \<noteq> []"
    by (simp add: getRandomValues_def)
  have Kr: "\<exists>r. encryptWithKey demo_platform (innerText demo_unlocked) [7]
      (of_nullable (salt demo_locked_note)) (of_nullable (iv demo_locked_note)) = Some r"
    using demo_nonce nonce
    by (simp add: encryptWithKey_def of_nullable_def demo_locked_note_def demo_platform_def)
  have Ks: "searchable demo_platform (innerText demo_unlocked) = js ''a''"
    by (simp add: demo_unlocked_def searchable_def demo_platform_def js_def img_match_def
        startsWith_def)
  have f1: "\<exists>n'. find_note (activeId demo_unlocked)
      (stored_notebooks (saveAction demo_platform demo_unlocked)) = Some n' \<and>
      encrypted n' \<and> searchableContent n' = Some (searchable demo_platform (innerText demo_unlocked))"
    using search_cache_invariant [OF K, of demo_platform] Kf Ke Kc Kk Kr by blast
  have ids: "pendingId ?L = Some (js ''note-0'')" "pendingId ?S = Some (js ''note-0'')"
    "activeId demo_unlocked = Some (js ''note-0'')"
    by (simp_all add: demo_unlocked_def demo_with_def)
  from a1 a2 b1 c1 d1 e1 f1 plain demo_rebuild demo_recovery demo_autosave
  show ?thesis
    unfolding ids Ks demo_searchable by (intro conjI) assumption+
qed

text \<open>
  The locked note of the scenario is unlocked with its password: what is persisted is
  then an encrypted note with its plaintext in the search cache.
\<close>

theorem unlock_fills_cache_counterexample:
  "index_clean (stored_notebooks
      ((demo_with [demo_locked_note])\<lparr>pendingId := Some (js ''note-0''), unlock_input := js ''secret''\<rparr>)) \<and>
   stored_notebooks (confirmUnlock demo_platform
      ((demo_with [demo_locked_note])\<lparr>pendingId := Some (js ''note-0''), unlock_input := js ''secret''\<rparr>)) =
     [demo_locked_note\<lparr>searchableContent := Some (js ''hello #tag1 world'')\<rparr>] \<and>
   encrypted (demo_locked_note\<lparr>searchableContent := Some (js ''hello #tag1 world'')\<rparr>) \<and>
   \<not> index_clean (stored_notebooks (confirmUnlock demo_platform
      ((demo_with [demo_locked_note])\<lparr>pendingId := Some (js ''note-0''), unlock_input := js ''secret''\<rparr>)))"
proof -
  let ?s = "(demo_with [demo_locked_note])\<lparr>pendingId := Some (js ''note-0''), unlock_input := js ''secret''\<rparr>"
  have pw: "unlock_input ?s \<noteq> []" by (simp add: js_def)
  have f: "find_note (pendingId ?s) (notebooks ?s) = Some demo_locked_note"
    by (simp add: demo_eval)
  have d: "try_decrypt demo_platform (unlock_input ?s) demo_locked_note =
     Some (TextEncoder_encode (js ''secret'') @ fst (getRandomValues 16 (random demo_manager)),
           js ''hello #tag1 world'')"
    using demo_right_password by simp
  have st: "stored_notebooks (confirmUnlock demo_platform ?s) =
      [demo_locked_note\<lparr>searchableContent := Some (js ''hello #tag1 world'')\<rparr>]"
    unfolding unlock_success(2) [OF pw f d] unlock_success(1) [OF pw f d]
    by (simp add: demo_searchable demo_with_def has_id_def)
  have enc: "encrypted demo_locked_note" by (simp add: demo_locked_note_def)
  have ne: "js ''hello #tag1 world'' \<noteq> []" by (simp add: js_def)
  have before: "index_clean (stored_notebooks ?s)"
    by (simp add: demo_with_def index_clean_def cache_clean_def demo_locked_note_def)
  show ?thesis
    unfolding st using before enc ne by (simp add: index_clean_def cache_clean_def)
qed

text \<open>
  C4, amended. On the active note, with a non-empty password: when the note is marked
  encrypted, its content decompresses to a non-empty text and the authenticated decryption
  fails, \<open>confirmUnlock\<close> puts the text on the editing surface, replaces content, salt and
  nonce by an encryption of the text under the password with 16 and 12 fresh random bytes,
  empties the search cache, persists the collection, caches the key and reports success.
\<close>

theorem unlock_recovers_corrupted:
  assumes password: "unlock_input s \<noteq> []"
    and found: "find_note (pendingId s) (notebooks s) = Some n"
    and act: "activeId s = Some (note_id n)"
    and fail: "try_decrypt p (unlock_input s) n = None"
    and dec: "decompress p (content n) = Some recovered"
    and nonempty: "recovered \<noteq> []"
    and total: "\<And>k nonce pt. length nonce = 12 \<Longrightarrow> aes_gcm_encrypt p k nonce pt \<noteq> None"
  shows "let s' = confirmUnlock p s;
             saltBytes = fst (getRandomValues 16 (random s));
             ivBytes = fst (getRandomValues 12 (snd (getRandomValues 16 (random s))));
             key = pbkdf2 p (TextEncoder_encode (unlock_input s)) saltBytes
         in innerText s' = recovered \<and> contentEditable s' = js ''plaintext-only'' \<and>
            (\<exists>ct. aes_gcm_encrypt p key ivBytes (TextEncoder_encode recovered) = Some ct \<and>
               find_note (pendingId s) (notebooks s') =
                 Some (n\<lparr>content := to_urlsafe (toBase64 ct),
                         salt := Some (to_urlsafe (toBase64 saltBytes)),
                         iv := Some (to_urlsafe (toBase64 ivBytes)),
                         searchableContent := Some []\<rparr>)) \<and>
            deriveKey p (unlock_input s) (Str (to_urlsafe (toBase64 saltBytes))) = Some key \<and>
            sessionKeys s' (note_id n) = Some key \<and>
            stored_notebooks s' = notebooks s' \<and>
            length saltBytes = 16 \<and> length ivBytes = 12 \<and>
            last (console s') =
              Alert ''Success! Your note was recovered and re-secured. (It was affected by a minor sync bug that has now been fixed).''"
proof -
  define saltBytes where "saltBytes = fst (getRandomValues 16 (random s))"
  define ivBytes where "ivBytes = fst (getRandomValues 12 (snd (getRandomValues 16 (random s))))"
  define key where "key = pbkdf2 p (TextEncoder_encode (unlock_input s)) saltBytes"
  have "length ivBytes = 12" by (simp add: ivBytes_def)
  from total [OF this] obtain ct where
    ct: "aes_gcm_encrypt p key ivBytes (TextEncoder_encode recovered) = Some ct"
    by blast
  from found obtain i where i: "pendingId s = Some i"
    by (auto simp: find_note_def split: option.splits)
  have cu: "confirmUnlock p s = rescue p (unlock_input s) n s"
    using password found fail by (simp add: confirmUnlock_def)
  note r = rescue_active [OF act dec nonempty ct [unfolded key_def saltBytes_def ivBytes_def]]
  have nb: "find_note (pendingId s) (notebooks (confirmUnlock p s)) =
      Some (n\<lparr>content := to_urlsafe (toBase64 ct),
              salt := Some (to_urlsafe (toBase64 saltBytes)),
              iv := Some (to_urlsafe (toBase64 ivBytes)),
              searchableContent := Some []\<rparr>)"
    unfolding cu r i saltBytes_def ivBytes_def
    by (simp, rule find_note_update_first) (use found i in simp_all)
  have dk: "deriveKey p (unlock_input s) (Str (to_urlsafe (toBase64 saltBytes))) = Some key"
    by (simp add: deriveKey_def b64url_roundtrip key_def)
  show ?thesis
    unfolding Let_def saltBytes_def [symmetric] ivBytes_def [symmetric] key_def [symmetric]
    using ct nb dk
    by (simp add: cu r saltBytes_def ivBytes_def key_def saveState_def)
qed


theorem unlock_recovers_corrupted_witness:
  "innerText (confirmUnlock demo_platform
     ((demo_with [demo_corrupt_note])\<lparr>pendingId := Some (js ''note-0''), unlock_input := js ''new''\<rparr>)) =
     js ''hello #tag1 world'' \<and>
   sessionKeys (confirmUnlock demo_platform
     ((demo_with [demo_corrupt_note])\<lparr>pendingId := Some (js ''note-0''), unlock_input := js ''new''\<rparr>))
     (js ''note-0'') \<noteq> None"
proof -
  let ?s = "(demo_with [demo_corrupt_note])\<lparr>pendingId := Some (js ''note-0''), unlock_input := js ''new''\<rparr>"
  have h1: "unlock_input ?s \<noteq> []" by (simp add: js_def)
  have h2: "find_note (pendingId ?s) (notebooks ?s) = Some demo_corrupt_note"
    by (simp add: demo_eval)
  have h3: "activeId ?s = Some (note_id demo_corrupt_note)"
    by (simp add: demo_eval)
  have h4: "try_decrypt demo_platform (unlock_input ?s) demo_corrupt_note = None"
    using demo_corrupt_decrypt by simp
  have h5: "js ''hello #tag1 world'' \<noteq> []" by (simp add: js_def)
  have id: "note_id demo_corrupt_note = js ''note-0''" by (simp add: demo_eval)
  from unlock_recovers_corrupted [OF h1 h2 h3 h4 demo_corrupt_decompress h5 demo_cipher_total]
  show ?thesis unfolding Let_def id by simp
qed

text \<open>
  Two runs on the corrupted note. With the password field empty nothing happens at all.
  With a password, but another note active, the success alert is raised while content,
  salt, nonce and session keys stay as they were.
\<close>

theorem unlock_recovery_counterexample:
  "decompress demo_platform (content demo_corrupt_note) = Some (js ''hello #tag1 world'') \<and>
   encrypted demo_corrupt_note \<and>
   notebooks (confirmUnlock demo_platform
     ((demo_with [demo_corrupt_note])\<lparr>pendingId := Some (js ''note-0''), unlock_input := []\<rparr>)) =
     [demo_corrupt_note] \<and>
   innerText (confirmUnlock demo_platform
     ((demo_with [demo_corrupt_note])\<lparr>pendingId := Some (js ''note-0''), unlock_input := []\<rparr>)) = [] \<and>
   notebooks (confirmUnlock demo_platform
     ((demo_with [demo_plain_note, demo_corrupt_note])
        \<lparr>activeId := Some (js ''note-1''), pendingId := Some (js ''note-0''),
         unlock_input := js ''new''\<rparr>)) = [demo_plain_note, demo_corrupt_note] \<and>
   sessionKeys (confirmUnlock demo_platform
     ((demo_with [demo_plain_note, demo_corrupt_note])
        \<lparr>activeId := Some (js ''note-1''), pendingId := Some (js ''note-0''),
         unlock_input := js ''new''\<rparr>)) (js ''note-0'') = None"
proof -
  let ?e = "(demo_with [demo_corrupt_note])\<lparr>pendingId := Some (js ''note-0''), unlock_input := []\<rparr>"
  let ?s = "(demo_with [demo_plain_note, demo_corrupt_note])
        \<lparr>activeId := Some (js ''note-1''), pendingId := Some (js ''note-0''),
         unlock_input := js ''new''\<rparr>"
  have e: "confirmUnlock demo_platform ?e = ?e"
    by (simp add: confirmUnlock_def)
  have f: "find_note (pendingId ?s) (notebooks ?s) = Some demo_corrupt_note"
    by (simp add: demo_eval js_def)
  have a: "activeId ?s \<noteq> Some (note_id demo_corrupt_note)"
    by (simp add: demo_eval js_def)
  have pw: "unlock_input ?s \<noteq> []" by (simp add: js_def)
  have ne: "js ''hello #tag1 world'' \<noteq> []" by (simp add: js_def)
  have "confirmUnlock demo_platform ?s = rescue demo_platform (js ''new'') demo_corrupt_note ?s"
    using pw f demo_corrupt_decrypt by (simp add: confirmUnlock_def Let_def)
  then have s: "notebooks (confirmUnlock demo_platform ?s) = notebooks ?s"
    "sessionKeys (confirmUnlock demo_platform ?s) = sessionKeys ?s"
    using rescue_inactive [OF a demo_corrupt_decompress ne, of "js ''new''"] by simp_all
  have enc: "encrypted demo_corrupt_note" by (simp add: demo_eval)
  show ?thesis
    unfolding e s using demo_corrupt_decompress enc by (simp add: demo_with_def demo_manager_def)
qed

text \<open>
  C8. The import looks for a note whose content equals the whole fragment, not the content
  recovered from it. When no note's content is the fragment, a structured payload always
  makes a new note with the payload's content, also when a note with exactly that content
  is already in the collection.
\<close>

theorem import_duplicates:
  assumes "location_hash s = hash" and "20 < length hash"
    and "decompress p hash = Some doc"
    and "JSON_parse p doc = Some pl" and "c_p pl = Some cnt"
    and "find (\<lambda>n. content n = hash) (notebooks s) = None"
  shows "length (notebooks (handleUrlParam p s)) = length (notebooks s) + 1 \<and>
         content (last (notebooks (handleUrlParam p s))) = cnt \<and>
         title (last (notebooks (handleUrlParam p s))) = js ''Shared Note'' \<and>
         butlast (notebooks (handleUrlParam p s)) = notebooks s \<and>
         activeId (handleUrlParam p s) = Some (note_id (last (notebooks (handleUrlParam p s))))"
proof -
  from assms(2) have "hash \<noteq> []" by auto
  with assms show ?thesis
    by (simp add: handleUrlParam_def Let_def addNotebook_def saveState_def openUnlockModal_def
        split: option.splits)
qed

theorem import_duplicates_witness:
  "map content (notebooks (handleUrlParam demo_platform
      ((demo_with [demo_shared_note])\<lparr>location_hash := demo_fragment\<rparr>))) =
     [js ''AWhp'', js ''AWhp'']"
proof -
  let ?s = "(demo_with [demo_shared_note])\<lparr>location_hash := demo_fragment\<rparr>"
  have h1: "location_hash ?s = demo_fragment" by simp
  have h2: "20 < length demo_fragment" by (simp add: demo_fragment_def js_def)
  have h4: "JSON_parse demo_platform demo_payload =
      Some \<lparr>c_p = Some (js ''AWhp''), d_p = Some (js ''rtl''), t_p = None,
            ca_p = None, lm_p = None, enc_p = None, salt_p = None, iv_p = None\<rparr>"
    by (simp add: demo_platform_def)
  have h5: "c_p \<lparr>c_p = Some (js ''AWhp''), d_p = Some (js ''rtl''), t_p = None,
            ca_p = None, lm_p = None, enc_p = None, salt_p = None, iv_p = None\<rparr> =
         Some (js ''AWhp'')"
    by simp
  have h6: "find (\<lambda>n. content n = demo_fragment) (notebooks ?s) = None"
    by (simp add: demo_with_def demo_shared_note_def demo_plain_note_def demo_fragment_def js_def)
  have nb: "notebooks ?s = [demo_shared_note]" by (simp add: demo_with_def)
  have c: "content demo_shared_note = js ''AWhp''" by (simp add: demo_shared_note_def)
  from import_duplicates [OF h1 h2 demo_fragment_decompress h4 h5 h6]
  have l: "length (notebooks (handleUrlParam demo_platform ?s)) = 2"
    and la: "content (last (notebooks (handleUrlParam demo_platform ?s))) = js ''AWhp''"
    and bl: "butlast (notebooks (handleUrlParam demo_platform ?s)) = [demo_shared_note]"
    unfolding nb by simp_all
  from l have ne: "notebooks (handleUrlParam demo_platform ?s) \<noteq> []" by auto
  from append_butlast_last_id [OF ne] bl
  have "notebooks (handleUrlParam demo_platform ?s) =
      [demo_shared_note, last (notebooks (handleUrlParam demo_platform ?s))]"
    by simp
  then have "map content (notebooks (handleUrlParam demo_platform ?s)) =
      map content [demo_shared_note, last (notebooks (handleUrlParam demo_platform ?s))]"
    by (rule arg_cong)
  then show ?thesis by (simp add: c la)
qed

end
